theory Spec2Isabelle
  imports Main "HOL-Library.AList"
begin

section \<open>JavaScript values\<close>

text \<open>
  The signaling server is JavaScript. The values that reach it from the network are the
  results of \<^verbatim>\<open>JSON.parse\<close>, strings taken from the request URL, and the numbers that
  \<^verbatim>\<open>Number(...)\<close> and \<^verbatim>\<open>Date.now()\<close> produce.

  Numbers are modelled as mathematical integers extended with \<open>NaN\<close> and the two
  infinities. This is exact for millisecond timestamps, counters and time-to-live values
  of magnitude below \<open>2^53\<close>; fractional numbers and the rounding of larger doubles are
  outside the model. Strings are \<open>char list\<close>, one \<open>char\<close> per code unit.
\<close>

datatype jsnum = NaN | NegInf | Num int | PosInf

datatype jsval =
    JUndefined
  | JNull
  | JBool bool
  | JNum jsnum
  | JStr string
  | JArr "jsval list"
  | JObj "(string \<times> jsval) list"

text \<open>Addition of two numbers (\<^verbatim>\<open>a + b\<close> on numbers).\<close>

fun js_add :: "jsnum \<Rightarrow> jsnum \<Rightarrow> jsnum" where
  "js_add NaN _ = NaN"
| "js_add _ NaN = NaN"
| "js_add (Num a) (Num b) = Num (a + b)"
| "js_add PosInf NegInf = NaN"
| "js_add NegInf PosInf = NaN"
| "js_add PosInf _ = PosInf"
| "js_add _ PosInf = PosInf"
| "js_add NegInf _ = NegInf"
| "js_add _ NegInf = NegInf"

text \<open>The comparisons \<^verbatim>\<open>a <= b\<close>, \<^verbatim>\<open>a < b\<close>, \<^verbatim>\<open>a >= b\<close>, \<^verbatim>\<open>a > b\<close>: all false when an operand is \<open>NaN\<close>.\<close>

fun js_le :: "jsnum \<Rightarrow> jsnum \<Rightarrow> bool" where
  "js_le NaN _ = False"
| "js_le _ NaN = False"
| "js_le NegInf _ = True"
| "js_le _ PosInf = True"
| "js_le (Num a) (Num b) = (a \<le> b)"
| "js_le _ _ = False"

fun js_lt :: "jsnum \<Rightarrow> jsnum \<Rightarrow> bool" where
  "js_lt NaN _ = False"
| "js_lt _ NaN = False"
| "js_lt (Num a) (Num b) = (a < b)"
| "js_lt PosInf _ = False"
| "js_lt _ NegInf = False"
| "js_lt _ _ = True"

definition js_ge :: "jsnum \<Rightarrow> jsnum \<Rightarrow> bool" where
  "js_ge a b = js_le b a"

definition js_gt :: "jsnum \<Rightarrow> jsnum \<Rightarrow> bool" where
  "js_gt a b = js_lt b a"

text \<open>Truthiness, and \<^verbatim>\<open>a || b\<close>.\<close>

fun truthy :: "jsval \<Rightarrow> bool" where
  "truthy JUndefined = False"
| "truthy JNull = False"
| "truthy (JBool b) = b"
| "truthy (JNum n) = (n \<noteq> NaN \<and> n \<noteq> Num 0)"
| "truthy (JStr s) = (s \<noteq> [])"
| "truthy (JArr _) = True"
| "truthy (JObj _) = True"

definition js_or :: "jsval \<Rightarrow> jsval \<Rightarrow> jsval" where
  "js_or a b = (if truthy a then a else b)"

text \<open>
  Arrays and objects are compared by reference in JavaScript. Every array or object in
  this program comes out of a JSON text that was just parsed, so it is a reference that
  nothing stored earlier can be identical to.
\<close>

fun compound :: "jsval \<Rightarrow> bool" where
  "compound (JArr _) = True"
| "compound (JObj _) = True"
| "compound _ = False"

text \<open>
  Property read \<^verbatim>\<open>v.name\<close>, for the names this program reads (\<^verbatim>\<open>type\<close>, \<^verbatim>\<open>iceState\<close>,
  \<^verbatim>\<open>ttlMs\<close>, ...): none of them is a property of a primitive's or an array's prototype, so
  the read gives \<^verbatim>\<open>undefined\<close> on anything but an object that has the property. Reading a
  property of \<^verbatim>\<open>null\<close> or \<^verbatim>\<open>undefined\<close> throws a \<^verbatim>\<open>TypeError\<close>; the callers test
  \<open>nullish\<close> first.
\<close>

definition nullish :: "jsval \<Rightarrow> bool" where
  "nullish v \<longleftrightarrow> v = JNull \<or> v = JUndefined"

fun js_prop :: "jsval \<Rightarrow> string \<Rightarrow> jsval" where
  "js_prop (JObj kvs) k = (case map_of kvs k of None \<Rightarrow> JUndefined | Some v \<Rightarrow> v)"
| "js_prop _ k = JUndefined"

subsection \<open>Conversion to string\<close>

definition digit_char :: "nat \<Rightarrow> char" where
  "digit_char d = char_of (48 + d)"

fun nat_digits :: "nat \<Rightarrow> string" where
  "nat_digits n = (if n < 10 then [digit_char n] else nat_digits (n div 10) @ [digit_char (n mod 10)])"

declare nat_digits.simps [simp del]

definition int_to_string :: "int \<Rightarrow> string" where
  "int_to_string i = (if i < 0 then CHR ''-'' # nat_digits (nat (- i)) else nat_digits (nat i))"

fun num_to_string :: "jsnum \<Rightarrow> string" where
  "num_to_string NaN = ''NaN''"
| "num_to_string PosInf = ''Infinity''"
| "num_to_string NegInf = ''-Infinity''"
| "num_to_string (Num i) = int_to_string i"

fun join_comma :: "string list \<Rightarrow> string" where
  "join_comma [] = []"
| "join_comma [s] = s"
| "join_comma (s # t # ss) = s @ '','' @ join_comma (t # ss)"

fun all_some :: "'a option list \<Rightarrow> 'a list option" where
  "all_some [] = Some []"
| "all_some (None # _) = None"
| "all_some (Some x # xs) = (case all_some xs of None \<Rightarrow> None | Some ys \<Rightarrow> Some (x # ys))"

text \<open>
  \<^verbatim>\<open>String(v)\<close>, as a template literal applies it. \<open>None\<close> is a \<^verbatim>\<open>TypeError\<close>: an object
  parsed from JSON whose own \<^verbatim>\<open>toString\<close> property is not callable has no primitive
  value. An array is the comma-joined strings of its elements, \<^verbatim>\<open>null\<close> elements as the
  empty string.
\<close>

fun js_to_string :: "jsval \<Rightarrow> string option" where
  "js_to_string JUndefined = Some ''undefined''"
| "js_to_string JNull = Some ''null''"
| "js_to_string (JBool b) = Some (if b then ''true'' else ''false'')"
| "js_to_string (JNum n) = Some (num_to_string n)"
| "js_to_string (JStr s) = Some s"
| "js_to_string (JArr xs) =
     map_option join_comma
       (all_some (map (\<lambda>x. if x = JNull \<or> x = JUndefined then Some [] else js_to_string x) xs))"
| "js_to_string (JObj kvs) =
     (if ''toString'' \<in> set (map fst kvs) then None else Some ''[object Object]'')"

text \<open>The template literal \<^verbatim>\<open>`${a}::${b}`\<close>; \<open>None\<close> when a conversion throws.\<close>

definition js_template :: "jsval \<Rightarrow> jsval \<Rightarrow> string option" where
  "js_template a b =
     (case js_to_string a of
        None \<Rightarrow> None
      | Some x \<Rightarrow> (case js_to_string b of None \<Rightarrow> None | Some y \<Rightarrow> Some (x @ ''::'' @ y)))"

text \<open>
  \<^verbatim>\<open>Number(v)\<close>. The conversion of a string to a number is the platform's
  (\<open>StringToNumber\<close>) and is a parameter; arrays and objects are converted through their
  string.
\<close>

fun js_Number :: "(string \<Rightarrow> jsnum) \<Rightarrow> jsval \<Rightarrow> jsnum option" where
  "js_Number s2n JUndefined = Some NaN"
| "js_Number s2n JNull = Some (Num 0)"
| "js_Number s2n (JBool b) = Some (Num (if b then 1 else 0))"
| "js_Number s2n (JNum n) = Some n"
| "js_Number s2n (JStr s) = Some (s2n s)"
| "js_Number s2n v = map_option s2n (js_to_string v)"

text \<open>
  The own enumerable properties that an object spread \<^verbatim>\<open>{...v}\<close> copies, in order: the
  properties of an object, the indexed elements of an array, the indexed characters of a
  string, nothing for any other primitive.
\<close>

fun indexed :: "nat \<Rightarrow> jsval list \<Rightarrow> (string \<times> jsval) list" where
  "indexed i [] = []"
| "indexed i (x # xs) = (nat_digits i, x) # indexed (Suc i) xs"

fun js_spread :: "jsval \<Rightarrow> (string \<times> jsval) list" where
  "js_spread (JObj kvs) = kvs"
| "js_spread (JArr xs) = indexed 0 xs"
| "js_spread (JStr s) = indexed 0 (map (\<lambda>c. JStr [c]) s)"
| "js_spread _ = []"

subsection \<open>The \<^verbatim>\<open>Map\<close> class with JavaScript values as keys\<close>

text \<open>
  A \<^verbatim>\<open>Map\<close> keeps its entries in insertion order; \<^verbatim>\<open>set\<close> on a key already present
  replaces the value in place. It is an association list with distinct keys.
  Primitive keys are compared by value; an array or object key is a fresh reference (see
  above), equal to no key already in the map.
\<close>

definition Map_get :: "(jsval \<times> 'v) list \<Rightarrow> jsval \<Rightarrow> 'v option" where
  "Map_get m k = (if compound k then None else map_of m k)"

definition Map_set :: "jsval \<Rightarrow> 'v \<Rightarrow> (jsval \<times> 'v) list \<Rightarrow> (jsval \<times> 'v) list" where
  "Map_set k v m = (if compound k then m @ [(k, v)] else AList.update k v m)"

definition Map_delete :: "jsval \<Rightarrow> (jsval \<times> 'v) list \<Rightarrow> bool \<times> (jsval \<times> 'v) list" where
  "Map_delete k m =
     (if compound k then (False, m) else (map_of m k \<noteq> None, AList.delete k m))"

section \<open>The rendezvous registry (\<^verbatim>\<open>rendezvous.js\<close>)\<close>

text \<open>
  A record as \<^verbatim>\<open>register\<close> stores it. \<^verbatim>\<open>seenAt\<close> is always a value of \<^verbatim>\<open>Date.now()\<close>;
  \<^verbatim>\<open>expiresAt\<close> is \<^verbatim>\<open>now + ttlMs\<close> for whatever number the caller passed.
\<close>

record rv_record =
  peerId :: jsval
  namespace :: jsval
  room :: jsval
  addresses :: jsval
  metadata :: jsval
  seenAt :: int
  expiresAt :: jsnum

type_synonym room_map = "(jsval \<times> rv_record) list"

text \<open>\<^verbatim>\<open>this.rooms\<close>: a \<^verbatim>\<open>Map\<close> from room key to a \<^verbatim>\<open>Map\<close> from peer id to record.\<close>

type_synonym registry = "(string \<times> room_map) list"

text \<open>\<^verbatim>\<open>roomKey(namespace, room)\<close> of \<^verbatim>\<open>rendezvous.js\<close>, on whatever values the callers
  pass; \<open>None\<close> when the template literal throws.\<close>

definition rv_roomKey :: "jsval \<Rightarrow> jsval \<Rightarrow> string option" where
  "rv_roomKey ns rm = js_template ns rm"

text \<open>
  \<^verbatim>\<open>register({namespace, room, peerId, addresses, ttlMs, metadata})\<close> at time \<open>now\<close>.
  Both callers pass every argument but possibly \<^verbatim>\<open>peerId\<close>, so the parameter defaults
  never apply. \<open>None\<close> is the \<^verbatim>\<open>TypeError\<close> of \<^verbatim>\<open>roomKey\<close>, thrown before anything is
  stored. The function returns \<^verbatim>\<open>roomMap.get(peerId)\<close> right after
  \<^verbatim>\<open>roomMap.set(peerId, record)\<close> with the same key: the record just stored.
\<close>

definition register ::
  "int \<Rightarrow> jsval \<Rightarrow> jsval \<Rightarrow> jsval \<Rightarrow> jsval \<Rightarrow> jsnum \<Rightarrow> jsval \<Rightarrow> registry
     \<Rightarrow> (rv_record \<times> registry) option" where
  "register now ns rm pid addrs ttlMs meta reg =
     (case rv_roomKey ns rm of
        None \<Rightarrow> None
      | Some key \<Rightarrow>
          (let expires = js_add (Num now) ttlMs;
               roomMap = (case map_of reg key of None \<Rightarrow> [] | Some m \<Rightarrow> m);
               r = \<lparr> peerId = pid, namespace = ns, room = rm, addresses = addrs,
                     metadata = meta, seenAt = now, expiresAt = expires \<rparr>
           in Some (r, AList.update key (Map_set pid r roomMap) reg)))"

text \<open>
  \<^verbatim>\<open>pruneExpired(now)\<close>. The inner loop walks the entries of one room and deletes the
  entry it is at when \<^verbatim>\<open>record.expiresAt <= now\<close>; the outer loop walks the rooms and
  deletes the room it is at when its map has become empty. Deleting the current entry of
  a \<^verbatim>\<open>Map\<close> while iterating over it does not disturb the iteration.
\<close>

fun prune_room :: "int \<Rightarrow> room_map \<Rightarrow> room_map" where
  "prune_room now [] = []"
| "prune_room now ((pid, r) # es) =
     (if js_le (expiresAt r) (Num now) then prune_room now es
      else (pid, r) # prune_room now es)"

fun pruneExpired :: "int \<Rightarrow> registry \<Rightarrow> registry" where
  "pruneExpired now [] = []"
| "pruneExpired now ((key, roomMap) # rest) =
     (let roomMap' = prune_room now roomMap
      in if length roomMap' = 0 then pruneExpired now rest
         else (key, roomMap') # pruneExpired now rest)"

text \<open>
  \<^verbatim>\<open>array.slice(0, limit)\<close>: a negative limit counts from the end, \<open>NaN\<close> is \<open>0\<close>.
\<close>

fun js_slice0 :: "jsnum \<Rightarrow> 'a list \<Rightarrow> 'a list" where
  "js_slice0 NaN xs = []"
| "js_slice0 NegInf xs = []"
| "js_slice0 PosInf xs = xs"
| "js_slice0 (Num n) xs =
     (if n < 0 then take (nat (int (length xs) + n)) xs else take (nat n) xs)"

text \<open>
  \<^verbatim>\<open>discover({namespace, room, limit = 32})\<close> at time \<open>now\<close>: prune, then the records of
  the room sorted by \<^verbatim>\<open>b.seenAt - a.seenAt\<close> (\<^verbatim>\<open>Array.prototype.sort\<close> is stable, and so is
  \<^const>\<open>sort_key\<close>), cut to \<^verbatim>\<open>limit\<close>. The registry is returned as pruned; the list is
  \<open>None\<close> when \<^verbatim>\<open>roomKey\<close> throws, which happens after the pruning.
\<close>

definition discover ::
  "int \<Rightarrow> jsval \<Rightarrow> jsval \<Rightarrow> jsnum option \<Rightarrow> registry \<Rightarrow> rv_record list option \<times> registry" where
  "discover now ns rm limit reg =
     (let reg' = pruneExpired now reg;
          lim = (case limit of None \<Rightarrow> Num 32 | Some l \<Rightarrow> l)
      in case rv_roomKey ns rm of
           None \<Rightarrow> (None, reg')
         | Some key \<Rightarrow>
             (case map_of reg' key of
                None \<Rightarrow> (Some [], reg')
              | Some roomMap \<Rightarrow>
                  (Some (js_slice0 lim (sort_key (\<lambda>r. - seenAt r) (map snd roomMap))), reg')))"

text \<open>\<^verbatim>\<open>removePeer({namespace, room, peerId})\<close>: the returned flag and the new registry.\<close>

definition removePeer :: "jsval \<Rightarrow> jsval \<Rightarrow> jsval \<Rightarrow> registry \<Rightarrow> (bool \<times> registry) option" where
  "removePeer ns rm pid reg =
     (case rv_roomKey ns rm of
        None \<Rightarrow> None
      | Some key \<Rightarrow>
          (case map_of reg key of
             None \<Rightarrow> Some (False, reg)
           | Some roomMap \<Rightarrow>
               (let (removed, roomMap') = Map_delete pid roomMap
                in Some (removed,
                     if length roomMap' = 0 then AList.delete key reg
                     else AList.update key roomMap' reg))))"

text \<open>
  The representation invariant of the registry: room keys are distinct, primitive peer
  ids are distinct within a room, and every record is stored under its own peer id.
\<close>

definition wf_room :: "room_map \<Rightarrow> bool" where
  "wf_room m \<longleftrightarrow>
     distinct (filter (\<lambda>k. \<not> compound k) (map fst m)) \<and> (\<forall>(k, r) \<in> set m. peerId r = k)"

definition wf_registry :: "registry \<Rightarrow> bool" where
  "wf_registry reg \<longleftrightarrow> distinct (map fst reg) \<and> (\<forall>(key, m) \<in> set reg. wf_room m)"

section \<open>The signaling server\<close>

subsection \<open>State\<close>

text \<open>
  The three constants read from the environment at start-up, after their conversion:
  \<^verbatim>\<open>process.env.SIGNAL_TOKEN_SHA256 || ''\<close> and the two \<^verbatim>\<open>Number(... || default)\<close>.
\<close>

record config =
  SHARED_TOKEN_HASH :: string
  MAX_MESSAGES_PER_MINUTE :: jsnum
  MAX_CONNECTIONS_PER_IP :: jsnum

record metrics =
  wsConnectionsTotal :: int
  wsActiveConnections :: int
  wsMessagesTotal :: int
  wsAuthFailuresTotal :: int
  wsRateLimitedTotal :: int
  relayUsageTotal :: int
  iceState :: "(jsval \<times> int) list"
  failureReason :: "(jsval \<times> int) list"
  byRegionCarrier :: "(jsval \<times> int) list"

record bucket =
  windowStart :: int
  count :: int

datatype ready_state = CONNECTING | OPEN | CLOSING | CLOSED

text \<open>
  A \<^verbatim>\<open>WebSocket\<close> object of the \<^verbatim>\<open>ws\<close> library with the properties the connection
  handler sets on it, the client address its handlers close over, and the
  \<^verbatim>\<open>readyState\<close> the library maintains.
\<close>

record websocket =
  ws_peerId :: string
  ws_namespace :: string
  ws_room :: string
  ws_clientIp :: string
  readyState :: ready_state

text \<open>
  The module-level state. \<^verbatim>\<open>rooms\<close> maps a room key to a \<^verbatim>\<open>Set\<close> of web sockets and
  \<^verbatim>\<open>peers\<close> a peer id to a web socket; both hold references, so the objects live in a
  store (\<open>sockets\<close>) and the collections hold their addresses. A \<^verbatim>\<open>Set\<close> is a list
  without duplicates, in insertion order.
\<close>

record server =
  rooms :: "(string \<times> nat list) list"
  peers :: "(string \<times> nat) list"
  rendezvous :: registry
  metrics :: metrics
  rateLimitByIp :: "(string \<times> bucket) list"
  connectionsByIp :: "(string \<times> int) list"
  sockets :: "(nat \<times> websocket) list"

definition init_metrics :: metrics where
  "init_metrics =
     \<lparr> wsConnectionsTotal = 0, wsActiveConnections = 0, wsMessagesTotal = 0,
       wsAuthFailuresTotal = 0, wsRateLimitedTotal = 0, relayUsageTotal = 0,
       iceState = [], failureReason = [], byRegionCarrier = [] \<rparr>"

definition init_server :: server where
  "init_server =
     \<lparr> rooms = [], peers = [], rendezvous = [], metrics = init_metrics,
       rateLimitByIp = [], connectionsByIp = [], sockets = [] \<rparr>"

text \<open>What a handler does to the outside.\<close>

datatype reply = Reply200 rv_record | Reply200_peers "rv_record list" | Reply400 | Reply401

datatype effect =
    WsSend nat jsval \<comment> \<open>\<^verbatim>\<open>ws.send(JSON.stringify(v))\<close> on the web socket at this address\<close>
  | SocketReject string \<comment> \<open>\<^verbatim>\<open>socket.write\<close> of the status line, then \<^verbatim>\<open>socket.destroy()\<close>\<close>
  | HttpReply reply
  | Log string string \<comment> \<open>level and message\<close>
  | UncaughtTypeError \<comment> \<open>the handler threw; nothing catches it\<close>

definition Set_add :: "nat \<Rightarrow> nat list \<Rightarrow> nat list" where
  "Set_add x xs = (if x \<in> set xs then xs else xs @ [x])"

definition Set_delete :: "nat \<Rightarrow> nat list \<Rightarrow> nat list" where
  "Set_delete x xs = removeAll x xs"

text \<open>The address of a newly constructed web socket: one that no object has yet.\<close>

definition fresh_ws :: "server \<Rightarrow> nat" where
  "fresh_ws st = (if sockets st = [] then 0 else Suc (Max (set (map fst (sockets st)))))"

subsection \<open>Helpers\<close>

text \<open>\<^verbatim>\<open>map.set(key, (map.get(key) || 0) + value)\<close>; a stored count of \<open>0\<close> and a missing
  one both read as \<open>0\<close>.\<close>

definition metricMapInc :: "(jsval \<times> int) list \<Rightarrow> jsval \<Rightarrow> int \<Rightarrow> (jsval \<times> int) list" where
  "metricMapInc m key v = Map_set key ((case Map_get m key of None \<Rightarrow> 0 | Some c \<Rightarrow> c) + v) m"

text \<open>
  \<^verbatim>\<open>crypto.timingSafeEqual\<close> on two buffers of the same length: whether they hold the same
  bytes. (It throws on buffers of different lengths; \<^verbatim>\<open>validateToken\<close> checks the lengths
  first.)
\<close>

definition timingSafeEqual :: "string \<Rightarrow> string \<Rightarrow> bool" where
  "timingSafeEqual a b \<longleftrightarrow> a = b"

text \<open>
  \<^verbatim>\<open>validateToken(rawToken)\<close>. \<^verbatim>\<open>hashToken\<close>, the hexadecimal SHA-256 digest of the
  token, is Node's \<^verbatim>\<open>crypto\<close> module and is the parameter \<open>sha256hex\<close>.
\<close>

definition validateToken :: "(string \<Rightarrow> string) \<Rightarrow> config \<Rightarrow> string \<Rightarrow> bool" where
  "validateToken sha256hex cfg rawToken =
     (if SHARED_TOKEN_HASH cfg = [] then True
      else if rawToken = [] then False
      else
        (let hashed = sha256hex rawToken;
             a = hashed;
             b = SHARED_TOKEN_HASH cfg
         in if length a \<noteq> length b then False else timingSafeEqual a b))"

text \<open>
  \<^verbatim>\<open>allowMessage(ip)\<close> at time \<open>now\<close>. First the bucket is looked up and, when missing
  or older than 60 s, replaced by an empty one starting now.
\<close>

definition open_window :: "int \<Rightarrow> string \<Rightarrow> server \<Rightarrow> bucket \<times> server" where
  "open_window now ip st =
     (let fresh = \<lparr> windowStart = now, count = 0 \<rparr>;
          rolled = (fresh, st\<lparr> rateLimitByIp := AList.update ip fresh (rateLimitByIp st) \<rparr>)
      in case map_of (rateLimitByIp st) ip of
           None \<Rightarrow> rolled
         | Some b \<Rightarrow> if now \<ge> windowStart b + 60000 then rolled else (b, st))"

definition allowMessage :: "config \<Rightarrow> int \<Rightarrow> string \<Rightarrow> server \<Rightarrow> bool \<times> server" where
  "allowMessage cfg now ip st =
     (let (bucket, st1) = open_window now ip st
      in if js_ge (Num (count bucket)) (MAX_MESSAGES_PER_MINUTE cfg)
         then (False,
               st1\<lparr> metrics := (metrics st1)\<lparr> wsRateLimitedTotal :=
                      wsRateLimitedTotal (metrics st1) + 1 \<rparr> \<rparr>)
         else (True,
               st1\<lparr> rateLimitByIp :=
                      AList.update ip (bucket\<lparr> count := count bucket + 1 \<rparr>)
                        (rateLimitByIp st1) \<rparr>))"

definition allowConnection :: "config \<Rightarrow> string \<Rightarrow> server \<Rightarrow> bool \<times> server" where
  "allowConnection cfg ip st =
     (let next = (case map_of (connectionsByIp st) ip of None \<Rightarrow> 0 | Some c \<Rightarrow> c) + 1
      in if js_gt (Num next) (MAX_CONNECTIONS_PER_IP cfg)
         then (False,
               st\<lparr> metrics := (metrics st)\<lparr> wsRateLimitedTotal :=
                     wsRateLimitedTotal (metrics st) + 1 \<rparr> \<rparr>)
         else (True, st\<lparr> connectionsByIp := AList.update ip next (connectionsByIp st) \<rparr>))"

text \<open>\<^verbatim>\<open>decrementConnection(ip)\<close>; in \<^verbatim>\<open>(connectionsByIp.get(ip) || 1) - 1\<close> a missing
  count and a count of \<open>0\<close> both read as \<open>1\<close>.\<close>

definition decrementConnection :: "string \<Rightarrow> server \<Rightarrow> server" where
  "decrementConnection ip st =
     (let v = (case map_of (connectionsByIp st) ip of
                 None \<Rightarrow> 1
               | Some c \<Rightarrow> if c = 0 then 1 else c) - 1
      in if v \<le> 0 then st\<lparr> connectionsByIp := AList.delete ip (connectionsByIp st) \<rparr>
         else st\<lparr> connectionsByIp := AList.update ip v (connectionsByIp st) \<rparr>)"

definition roomKey :: "string \<Rightarrow> string \<Rightarrow> string" where
  "roomKey ns rm = ns @ ''::'' @ rm"

text \<open>\<^verbatim>\<open>ensureRoom(namespace, room)\<close>: the members of the room, created empty if the key
  is new, and the state.\<close>

definition ensureRoom :: "string \<Rightarrow> string \<Rightarrow> server \<Rightarrow> nat list \<times> server" where
  "ensureRoom ns rm st =
     (let key = roomKey ns rm
      in case map_of (rooms st) key of
           None \<Rightarrow> ([], st\<lparr> rooms := AList.update key [] (rooms st) \<rparr>)
         | Some members \<Rightarrow> (members, st))"

text \<open>
  \<^verbatim>\<open>relayToRoom({namespace, room, senderId, payload})\<close>: the loop over the members. A
  member is skipped when \<^verbatim>\<open>ws.readyState !== ws.OPEN || ws.peerId === senderId\<close>. (An
  address with no object behind it cannot be in a room; the loop would skip it.)
\<close>

fun relay_members :: "(nat \<times> websocket) list \<Rightarrow> nat list \<Rightarrow> string \<Rightarrow> jsval \<Rightarrow> effect list" where
  "relay_members socks [] senderId payload = []"
| "relay_members socks (ws # rest) senderId payload =
     (case map_of socks ws of
        None \<Rightarrow> relay_members socks rest senderId payload
      | Some w \<Rightarrow>
          if readyState w \<noteq> OPEN \<or> ws_peerId w = senderId
          then relay_members socks rest senderId payload
          else WsSend ws payload # relay_members socks rest senderId payload)"

definition relayToRoom :: "server \<Rightarrow> string \<Rightarrow> string \<Rightarrow> string \<Rightarrow> jsval \<Rightarrow> effect list" where
  "relayToRoom st ns rm senderId payload =
     (case map_of (rooms st) (roomKey ns rm) of
        None \<Rightarrow> []
      | Some members \<Rightarrow> relay_members (sockets st) members senderId payload)"

subsection \<open>The web socket handlers\<close>

text \<open>
  The body of \<^verbatim>\<open>wss.on('connection', ...)\<close> for a new web socket, with the context the
  upgrade handler passes. \<open>now\<close> is the \<^verbatim>\<open>Date.now()\<close> that \<^verbatim>\<open>register\<close> reads and \<open>isoNow\<close>
  the \<^verbatim>\<open>nowIso()\<close> of the welcome frame. \<^verbatim>\<open>register\<close> cannot throw here: a room key of
  two strings always exists.
\<close>

definition on_connection ::
  "int \<Rightarrow> string \<Rightarrow> string \<Rightarrow> string \<Rightarrow> string \<Rightarrow> string \<Rightarrow> server \<Rightarrow> server \<times> effect list" where
  "on_connection now isoNow ns rm ip pid st =
     (let ws = fresh_ws st;
          st0 = st\<lparr> sockets := sockets st @
                  [(ws, \<lparr> ws_peerId = pid, ws_namespace = ns, ws_room = rm,
                          ws_clientIp = ip, readyState = OPEN \<rparr>)] \<rparr>;
          (members, st1) = ensureRoom ns rm st0;
          st2 = st1\<lparr> rooms := AList.update (roomKey ns rm) (Set_add ws members) (rooms st1) \<rparr>;
          st3 = st2\<lparr> peers := AList.update pid ws (peers st2) \<rparr>;
          st4 = st3\<lparr> metrics := (metrics st3)
                  \<lparr> wsConnectionsTotal := wsConnectionsTotal (metrics st3) + 1,
                    wsActiveConnections := wsActiveConnections (metrics st3) + 1 \<rparr> \<rparr>;
          st5 = (case register now (JStr ns) (JStr rm) (JStr pid) (JArr [JStr ip]) (Num 60000)
                        (JObj [(''transport'', JStr ''websocket'')]) (rendezvous st4) of
                   None \<Rightarrow> st4
                 | Some (r, reg) \<Rightarrow> st4\<lparr> rendezvous := reg \<rparr>)
      in (st5,
          [Log ''info'' ''peer.connected'',
           WsSend ws (JObj [(''type'', JStr ''welcome''), (''peerId'', JStr pid),
                            (''namespace'', JStr ns), (''room'', JStr rm),
                            (''now'', JStr isoNow)])]))"

text \<open>
  The telemetry branch of the message handler, on the metrics. The flag says that the
  template literal of the region and carrier key threw, which happens after the earlier
  counters were updated.
\<close>

definition telemetry :: "jsval \<Rightarrow> metrics \<Rightarrow> metrics \<times> bool" where
  "telemetry message m =
     (let ice = js_or (js_prop message ''iceState'') (JStr ''unknown'');
          m1 = m\<lparr> iceState := metricMapInc (iceState m) ice 1 \<rparr>;
          m2 = (if truthy (js_prop message ''failureReason'')
                then m1\<lparr> failureReason :=
                         metricMapInc (failureReason m1) (js_prop message ''failureReason'') 1 \<rparr>
                else m1);
          m3 = (if truthy (js_prop message ''relayUsed'')
                then m2\<lparr> relayUsageTotal := relayUsageTotal m2 + 1 \<rparr>
                else m2)
      in if truthy (js_prop message ''region'') \<or> truthy (js_prop message ''carrier'')
         then
           (case js_template (js_or (js_prop message ''region'') (JStr ''unknown''))
                             (js_or (js_prop message ''carrier'') (JStr ''unknown'')) of
              None \<Rightarrow> (m3, True)
            | Some key \<Rightarrow>
                (m3\<lparr> byRegionCarrier := metricMapInc (byRegionCarrier m3) (JStr key) 1 \<rparr>, False))
         else (m3, False))"

text \<open>
  \<^verbatim>\<open>{...message, sourcePeerId: peerId, namespace, room, receivedAt: nowIso()}\<close>: the
  properties of the message in their order, then the four assignments, each replacing
  the value of a property already there or appending a new one.
\<close>

definition relayPayload :: "jsval \<Rightarrow> string \<Rightarrow> string \<Rightarrow> string \<Rightarrow> string \<Rightarrow> jsval" where
  "relayPayload message pid ns rm isoNow =
     JObj (AList.update ''receivedAt'' (JStr isoNow)
            (AList.update ''room'' (JStr rm)
              (AList.update ''namespace'' (JStr ns)
                (AList.update ''sourcePeerId'' (JStr pid) (js_spread message)))))"

text \<open>
  \<^verbatim>\<open>ws.on('message', ...)\<close> of the web socket at address \<open>ws\<close>, whose object is \<open>w\<close>.
  \<open>parsed\<close> is the result of \<^verbatim>\<open>JSON.parse(String(raw))\<close>, \<open>None\<close> when it throws.
  Reading \<^verbatim>\<open>message.type\<close> of a parsed \<^verbatim>\<open>null\<close> throws a \<^verbatim>\<open>TypeError\<close>.
\<close>

definition on_message ::
  "config \<Rightarrow> int \<Rightarrow> string \<Rightarrow> nat \<Rightarrow> websocket \<Rightarrow> jsval option \<Rightarrow> server \<Rightarrow> server \<times> effect list" where
  "on_message cfg now isoNow ws w parsed st =
     (let (allowed, st1) = allowMessage cfg now (ws_clientIp w) st
      in if \<not> allowed
         then (st1, [WsSend ws (JObj [(''type'', JStr ''error''), (''code'', JStr ''rate_limited'')])])
         else
           (let st2 = st1\<lparr> metrics := (metrics st1)
                         \<lparr> wsMessagesTotal := wsMessagesTotal (metrics st1) + 1 \<rparr> \<rparr>
            in case parsed of
                 None \<Rightarrow>
                   (st2, [WsSend ws (JObj [(''type'', JStr ''error''),
                                           (''code'', JStr ''invalid_json'')])])
               | Some message \<Rightarrow>
                   if nullish message then (st2, [UncaughtTypeError])
                   else if js_prop message ''type'' = JStr ''heartbeat''
                   then (st2, [WsSend ws (JObj [(''type'', JStr ''heartbeat-ack''),
                                                (''now'', JStr isoNow)])])
                   else if js_prop message ''type'' = JStr ''telemetry''
                   then
                     (let (m, threw) = telemetry message (metrics st2)
                      in (st2\<lparr> metrics := m \<rparr>, if threw then [UncaughtTypeError] else []))
                   else
                     (st2, relayToRoom st2 (ws_namespace w) (ws_room w) (ws_peerId w)
                             (relayPayload message (ws_peerId w) (ws_namespace w) (ws_room w) isoNow))))"

text \<open>\<^verbatim>\<open>ws.on('close', ...)\<close> of the web socket at address \<open>ws\<close>, whose object is \<open>w\<close>.\<close>

definition on_close :: "nat \<Rightarrow> websocket \<Rightarrow> server \<Rightarrow> server \<times> effect list" where
  "on_close ws w st =
     (let key = roomKey (ws_namespace w) (ws_room w);
          st1 = (case map_of (rooms st) key of
                   None \<Rightarrow> st
                 | Some members \<Rightarrow>
                     (let members' = Set_delete ws members
                      in if length members' = 0
                         then st\<lparr> rooms := AList.delete key (rooms st) \<rparr>
                         else st\<lparr> rooms := AList.update key members' (rooms st) \<rparr>));
          st2 = st1\<lparr> peers := AList.delete (ws_peerId w) (peers st1) \<rparr>;
          st3 = (case removePeer (JStr (ws_namespace w)) (JStr (ws_room w)) (JStr (ws_peerId w))
                        (rendezvous st2) of
                   None \<Rightarrow> st2
                 | Some (removed, reg) \<Rightarrow> st2\<lparr> rendezvous := reg \<rparr>);
          st4 = decrementConnection (ws_clientIp w) st3;
          st5 = st4\<lparr> metrics := (metrics st4)
                  \<lparr> wsActiveConnections := max 0 (wsActiveConnections (metrics st4) - 1) \<rparr> \<rparr>
      in (st5, [Log ''info'' ''peer.disconnected'']))"

text \<open>
  An upgrade request after the parsing of its URL and headers: the path, the result of
  \<^verbatim>\<open>ipOf\<close>, the result of \<^verbatim>\<open>parseAuthToken\<close>, the three query parameters as
  \<^verbatim>\<open>searchParams.get\<close> returns them (\<open>None\<close> for \<^verbatim>\<open>null\<close>), and the peer id that the
  generator would produce (\<^verbatim>\<open>peer-<ms>-<random>\<close>).
\<close>

record upgrade_request =
  pathname :: string
  clientIp :: string
  token :: string
  q_namespace :: "string option"
  q_room :: "string option"
  q_peerId :: "string option"
  generated_peerId :: string

text \<open>\<^verbatim>\<open>searchParams.get(name) || dflt\<close>.\<close>

definition param_or :: "string option \<Rightarrow> string \<Rightarrow> string" where
  "param_or p dflt = (case p of None \<Rightarrow> dflt | Some s \<Rightarrow> if s = [] then dflt else s)"

text \<open>
  \<^verbatim>\<open>server.on('upgrade', ...)\<close>. \<^verbatim>\<open>wss.handleUpgrade\<close> is taken to complete the handshake
  and to emit \<^verbatim>\<open>connection\<close> at once.
\<close>

definition on_upgrade ::
  "(string \<Rightarrow> string) \<Rightarrow> config \<Rightarrow> int \<Rightarrow> string \<Rightarrow> upgrade_request \<Rightarrow> server
     \<Rightarrow> server \<times> effect list" where
  "on_upgrade sha256hex cfg now isoNow req st =
     (if pathname req \<noteq> ''/signal'' then (st, [SocketReject ''404 Not Found''])
      else
        (let ip = clientIp req;
             (ok, st1) = allowConnection cfg ip st
         in if \<not> ok
            then (st1, [SocketReject ''429 Too Many Requests'',
                        Log ''warn'' ''peer.connection_rate_limited''])
            else if \<not> validateToken sha256hex cfg (token req)
            then (st1\<lparr> metrics := (metrics st1)\<lparr> wsAuthFailuresTotal :=
                         wsAuthFailuresTotal (metrics st1) + 1 \<rparr> \<rparr>,
                  [SocketReject ''401 Unauthorized'', Log ''warn'' ''peer.auth_failed''])
            else
              on_connection now isoNow
                (param_or (q_namespace req) ''global'')
                (param_or (q_room req) ''public'')
                ip
                (param_or (q_peerId req) (generated_peerId req))
                st1))"

subsection \<open>The rendezvous endpoints and the pruner\<close>

text \<open>What \<^verbatim>\<open>parseJsonBody\<close> settles to: \<^verbatim>\<open>{}\<close> for an empty body, a rejection when
  \<^verbatim>\<open>JSON.parse\<close> throws, the parsed value otherwise.\<close>

datatype body_in = BodyEmpty | BodyInvalid | BodyJson jsval

fun parseJsonBody :: "body_in \<Rightarrow> jsval option" where
  "parseJsonBody BodyEmpty = Some (JObj [])"
| "parseJsonBody BodyInvalid = None"
| "parseJsonBody (BodyJson v) = Some v"

text \<open>
  \<^verbatim>\<open>POST /rendezvous/register\<close>. Everything that throws inside the \<^verbatim>\<open>try\<close> block (the
  body's rejection, a property read on a \<^verbatim>\<open>null\<close> body, \<^verbatim>\<open>Number\<close> or \<^verbatim>\<open>roomKey\<close> on an
  object without a primitive value) is answered with 400, the registry untouched.
\<close>

definition post_rendezvous_register ::
  "(string \<Rightarrow> string) \<Rightarrow> (string \<Rightarrow> jsnum) \<Rightarrow> config \<Rightarrow> int \<Rightarrow> string \<Rightarrow> body_in \<Rightarrow> server
     \<Rightarrow> server \<times> effect list" where
  "post_rendezvous_register sha256hex s2n cfg now tok body_in st =
     (if \<not> validateToken sha256hex cfg tok
      then (st\<lparr> metrics := (metrics st)\<lparr> wsAuthFailuresTotal :=
                   wsAuthFailuresTotal (metrics st) + 1 \<rparr> \<rparr>,
            [HttpReply Reply401])
      else
        (case parseJsonBody body_in of
           None \<Rightarrow> (st, [HttpReply Reply400])
         | Some body \<Rightarrow>
             if nullish body then (st, [HttpReply Reply400])
             else
               (case js_Number s2n (js_or (js_prop body ''ttlMs'') (JNum (Num 60000))) of
                  None \<Rightarrow> (st, [HttpReply Reply400])
                | Some ttlMs \<Rightarrow>
                    (case register now
                            (js_or (js_prop body ''namespace'') (JStr ''global''))
                            (js_or (js_prop body ''room'') (JStr ''public''))
                            (js_prop body ''peerId'')
                            (js_or (js_prop body ''addresses'') (JArr []))
                            ttlMs
                            (js_or (js_prop body ''metadata'') (JObj []))
                            (rendezvous st) of
                       None \<Rightarrow> (st, [HttpReply Reply400])
                     | Some (r, reg) \<Rightarrow> (st\<lparr> rendezvous := reg \<rparr>, [HttpReply (Reply200 r)])))))"

text \<open>\<^verbatim>\<open>GET /rendezvous/discover\<close> with its three query parameters.\<close>

definition get_rendezvous_discover ::
  "(string \<Rightarrow> jsnum) \<Rightarrow> int \<Rightarrow> string option \<Rightarrow> string option \<Rightarrow> string option \<Rightarrow> server
     \<Rightarrow> server \<times> effect list" where
  "get_rendezvous_discover s2n now q_ns q_rm q_limit st =
     (let ns = param_or q_ns ''global'';
          rm = param_or q_rm ''public'';
          limit = (case q_limit of
                     None \<Rightarrow> Num 32
                   | Some l \<Rightarrow> if l = [] then Num 32 else s2n l);
          (records, reg) = discover now (JStr ns) (JStr rm) (Some limit) (rendezvous st)
      in (st\<lparr> rendezvous := reg \<rparr>,
          (case records of None \<Rightarrow> [UncaughtTypeError] | Some rs \<Rightarrow> [HttpReply (Reply200_peers rs)])))"

subsection \<open>Events\<close>

text \<open>
  What the outside does to the server: HTTP requests, upgrade requests, frames and
  closes on admitted web sockets, and the 30 s timer of the pruner. The \<^verbatim>\<open>ws\<close> library
  delivers a message only on an open web socket, and emits \<^verbatim>\<open>close\<close> once, when the web
  socket reaches \<^verbatim>\<open>CLOSED\<close>; before that a web socket may be \<^verbatim>\<open>CLOSING\<close> while still a
  member of its room.
\<close>

datatype event =
    Upgrade upgrade_request int string
  | Message nat "jsval option" int string
  | Closing nat
  | Close nat
  | PostRegister string body_in int
  | GetDiscover "string option" "string option" "string option" int
  | PruneTick int

definition set_readyState :: "nat \<Rightarrow> ready_state \<Rightarrow> server \<Rightarrow> server" where
  "set_readyState ws rs st =
     (case map_of (sockets st) ws of
        None \<Rightarrow> st
      | Some w \<Rightarrow> st\<lparr> sockets := AList.update ws (w\<lparr> readyState := rs \<rparr>) (sockets st) \<rparr>)"

fun step ::
  "(string \<Rightarrow> string) \<Rightarrow> (string \<Rightarrow> jsnum) \<Rightarrow> config \<Rightarrow> event \<Rightarrow> server \<Rightarrow> server \<times> effect list" where
  "step sha256hex s2n cfg (Upgrade req now isoNow) st = on_upgrade sha256hex cfg now isoNow req st"
| "step sha256hex s2n cfg (Message ws parsed now isoNow) st =
     (case map_of (sockets st) ws of
        None \<Rightarrow> (st, [])
      | Some w \<Rightarrow> if readyState w = OPEN then on_message cfg now isoNow ws w parsed st else (st, []))"
| "step sha256hex s2n cfg (Closing ws) st =
     (case map_of (sockets st) ws of
        None \<Rightarrow> (st, [])
      | Some w \<Rightarrow> if readyState w = OPEN then (set_readyState ws CLOSING st, []) else (st, []))"
| "step sha256hex s2n cfg (Close ws) st =
     (case map_of (sockets st) ws of
        None \<Rightarrow> (st, [])
      | Some w \<Rightarrow>
          if readyState w = CLOSED then (st, [])
          else on_close ws w (set_readyState ws CLOSED st))"
| "step sha256hex s2n cfg (PostRegister tok body now) st =
     post_rendezvous_register sha256hex s2n cfg now tok body st"
| "step sha256hex s2n cfg (GetDiscover q_ns q_rm q_limit now) st =
     get_rendezvous_discover s2n now q_ns q_rm q_limit st"
| "step sha256hex s2n cfg (PruneTick now) st =
     (st\<lparr> rendezvous := pruneExpired now (rendezvous st) \<rparr>, [])"

text \<open>The state after a sequence of events. (An uncaught exception ends the process; the
  states of a real run are those of the prefixes up to it.)\<close>

fun run ::
  "(string \<Rightarrow> string) \<Rightarrow> (string \<Rightarrow> jsnum) \<Rightarrow> config \<Rightarrow> event list \<Rightarrow> server \<Rightarrow> server" where
  "run sha256hex s2n cfg [] st = st"
| "run sha256hex s2n cfg (ev # evs) st = run sha256hex s2n cfg evs (fst (step sha256hex s2n cfg ev st))"

section \<open>Notions used in the statements\<close>

text \<open>
  Fan-out as the specification words it: iterate the members of the room, skip any whose
  peer id is the sender's or whose outbound side is no longer writable, and send the
  envelope to each of the others.
\<close>

definition fanout_spec :: "server \<Rightarrow> string \<Rightarrow> string \<Rightarrow> string \<Rightarrow> jsval \<Rightarrow> effect list" where
  "fanout_spec st ns rm sender_peer_id envelope =
     map (\<lambda>r. WsSend r envelope)
       (filter (\<lambda>r. case map_of (sockets st) r of
                       None \<Rightarrow> False
                     | Some w \<Rightarrow> \<not> (ws_peerId w = sender_peer_id \<or> readyState w \<noteq> OPEN))
          (case map_of (rooms st) (roomKey ns rm) of None \<Rightarrow> [] | Some members \<Rightarrow> members))"

text \<open>The shallow merge of two objects: the fields of the second set on the first, one
  after the other.\<close>

definition shallow_merge ::
  "(string \<times> jsval) list \<Rightarrow> (string \<times> jsval) list \<Rightarrow> (string \<times> jsval) list" where
  "shallow_merge a b = fold (\<lambda>(k, v) acc. AList.update k v acc) b a"

text \<open>
  A parsed message from the web socket \<open>w\<close> reaches the relay branch of the message
  handler: the rate limiter admits it, it is not \<^verbatim>\<open>null\<close>, and its \<^verbatim>\<open>type\<close> is neither
  \<^verbatim>\<open>heartbeat\<close> nor \<^verbatim>\<open>telemetry\<close>.
\<close>

definition relayed :: "config \<Rightarrow> int \<Rightarrow> websocket \<Rightarrow> jsval \<Rightarrow> server \<Rightarrow> bool" where
  "relayed cfg now w message st \<longleftrightarrow>
     fst (allowMessage cfg now (ws_clientIp w) st) \<and> \<not> nullish message \<and>
     js_prop message ''type'' \<noteq> JStr ''heartbeat'' \<and>
     js_prop message ''type'' \<noteq> JStr ''telemetry''"

subsection \<open>The first end-to-end scenario of the specification\<close>

text \<open>
  No token digest is configured; three peers \<open>A\<close>, \<open>B\<close>, \<open>C\<close> are admitted to room \<open>r\<close> of
  namespace \<open>n\<close>, and \<open>A\<close> sends an offer (here one that also carries a \<^verbatim>\<open>room\<close> field of
  its own).
\<close>

definition scenario_cfg :: config where
  "scenario_cfg =
     \<lparr> SHARED_TOKEN_HASH = [], MAX_MESSAGES_PER_MINUTE = Num 3,
       MAX_CONNECTIONS_PER_IP = Num 12 \<rparr>"

definition scenario_req :: "string \<Rightarrow> string \<Rightarrow> upgrade_request" where
  "scenario_req ip pid =
     \<lparr> pathname = ''/signal'', clientIp = ip, token = [], q_namespace = Some ''n'',
       q_room = Some ''r'', q_peerId = Some pid, generated_peerId = ''peer-0-abc'' \<rparr>"

definition scenario_room :: server where
  "scenario_room =
     run (\<lambda>s. s) (\<lambda>s. NaN) scenario_cfg
       [Upgrade (scenario_req ''10.0.0.1'' ''A'') 0 ''t0'',
        Upgrade (scenario_req ''10.0.0.1'' ''B'') 1 ''t1'',
        Upgrade (scenario_req ''10.0.0.2'' ''C'') 2 ''t2'']
       init_server"

definition scenario_offer :: jsval where
  "scenario_offer =
     JObj [(''type'', JStr ''offer''), (''sdp'', JStr ''v=0''), (''room'', JStr ''elsewhere'')]"

definition socket_A :: websocket where
  "socket_A =
     \<lparr> ws_peerId = ''A'', ws_namespace = ''n'', ws_room = ''r'', ws_clientIp = ''10.0.0.1'',
       readyState = OPEN \<rparr>"

definition scenario_envelope :: jsval where
  "scenario_envelope =
     JObj [(''type'', JStr ''offer''), (''sdp'', JStr ''v=0''), (''room'', JStr ''r''),
           (''sourcePeerId'', JStr ''A''), (''namespace'', JStr ''n''),
           (''receivedAt'', JStr ''t3'')]"

text \<open>A configuration with a token digest, for a stand-in digest function that reverses
  the token; and three records, one whose expiry is not a number.\<close>

definition digest_cfg :: config where
  "digest_cfg =
     \<lparr> SHARED_TOKEN_HASH = ''cba'', MAX_MESSAGES_PER_MINUTE = Num 300,
       MAX_CONNECTIONS_PER_IP = Num 12 \<rparr>"

definition nan_record :: rv_record where
  "nan_record =
     \<lparr> peerId = JStr ''p'', namespace = JStr ''n'', room = JStr ''r'', addresses = JArr [],
       metadata = JObj [], seenAt = 100, expiresAt = NaN \<rparr>"

definition live_record :: rv_record where
  "live_record =
     \<lparr> peerId = JStr ''q'', namespace = JStr ''n'', room = JStr ''r'', addresses = JArr [],
       metadata = JObj [], seenAt = 100, expiresAt = Num 700 \<rparr>"

definition stale_record :: rv_record where
  "stale_record =
     \<lparr> peerId = JStr ''s'', namespace = JStr ''m'', room = JStr ''r'', addresses = JArr [],
       metadata = JObj [], seenAt = 100, expiresAt = Num 500 \<rparr>"

text \<open>The same scenario with two peers admitted under the one peer id \<open>A\<close>.\<close>

definition twin_room :: server where
  "twin_room =
     run (\<lambda>s. s) (\<lambda>s. NaN) scenario_cfg
       [Upgrade (scenario_req ''10.0.0.1'' ''A'') 0 ''t0'',
        Upgrade (scenario_req ''10.0.0.3'' ''A'') 1 ''t1'',
        Upgrade (scenario_req ''10.0.0.2'' ''C'') 2 ''t2'']
       init_server"

definition socket_A2 :: websocket where
  "socket_A2 =
     \<lparr> ws_peerId = ''A'', ws_namespace = ''n'', ws_room = ''r'', ws_clientIp = ''10.0.0.3'',
       readyState = OPEN \<rparr>"

text \<open>The first scenario after \<open>B\<close> has begun to close, and the room when only \<open>A\<close> has been
  admitted.\<close>

definition closing_room :: server where
  "closing_room = run (\<lambda>s. s) (\<lambda>s. NaN) scenario_cfg [Closing 1] scenario_room"

definition socket_B_closing :: websocket where
  "socket_B_closing =
     \<lparr> ws_peerId = ''B'', ws_namespace = ''n'', ws_room = ''r'', ws_clientIp = ''10.0.0.1'',
       readyState = CLOSING \<rparr>"

definition single_room :: server where
  "single_room =
     run (\<lambda>s. s) (\<lambda>s. NaN) scenario_cfg [Upgrade (scenario_req ''10.0.0.1'' ''A'') 0 ''t0''] init_server"

text \<open>An upgrade request passes the three checks of the upgrade handler.\<close>

definition admitted :: "(string \<Rightarrow> string) \<Rightarrow> config \<Rightarrow> upgrade_request \<Rightarrow> server \<Rightarrow> bool" where
  "admitted sha256hex cfg req st \<longleftrightarrow>
     pathname req = ''/signal'' \<and> fst (allowConnection cfg (clientIp req) st) \<and>
     validateToken sha256hex cfg (token req)"

subsection \<open>Rate limiting\<close>





text \<open>
  A frame that arrives on a web socket: the address of the web socket and its object, the
  result of parsing the frame, and the two clock readings of the handler. The handler
  runs on each frame in turn; its reply to a frame it rejects is the one error frame to
  the sender.
\<close>

type_synonym frame = "nat \<times> websocket \<times> jsval option \<times> int \<times> string"





fun handle_all :: "config \<Rightarrow> frame list \<Rightarrow> server \<Rightarrow> effect list list" where
  "handle_all cfg [] st = []"
| "handle_all cfg ((ws, w, parsed, now, isoNow) # fs) st =
     (let (st', out) = on_message cfg now isoNow ws w parsed st in out # handle_all cfg fs st')"




subsection \<open>Records of the registry\<close>

text \<open>All the records of a registry, room after room.\<close>

definition all_records :: "registry \<Rightarrow> rv_record list" where
  "all_records reg = concat (map (\<lambda>(key, m). map snd m) reg)"

text \<open>The registry holds the record under the peer id in the room with the key.\<close>

definition stored_at :: "registry \<Rightarrow> string \<Rightarrow> jsval \<Rightarrow> rv_record \<Rightarrow> bool" where
  "stored_at reg key pid r \<longleftrightarrow> (case map_of reg key of None \<Rightarrow> False | Some m \<Rightarrow> (pid, r) \<in> set m)"

text \<open>
  The time-to-live that \<^verbatim>\<open>POST /rendezvous/register\<close> passes to \<^verbatim>\<open>register\<close> for a body:
  \<^verbatim>\<open>Number(body.ttlMs || 60_000)\<close>; \<open>None\<close> when the handler fails before it gets there.
  An event passes a positive time-to-live when it is no such request or this number is
  greater than zero.
\<close>

definition post_ttl :: "(string \<Rightarrow> jsnum) \<Rightarrow> body_in \<Rightarrow> jsnum option" where
  "post_ttl s2n body_in =
     (case parseJsonBody body_in of
        None \<Rightarrow> None
      | Some body \<Rightarrow>
          if nullish body then None
          else js_Number s2n (js_or (js_prop body ''ttlMs'') (JNum (Num 60000))))"


text \<open>
  A \<^verbatim>\<open>POST /rendezvous/register\<close> that is authorised, whose body parses to something other
  than \<^verbatim>\<open>null\<close>, and whose namespace and room give the room key.
\<close>

definition well_formed_post :: "(string \<Rightarrow> string) \<Rightarrow> config \<Rightarrow> string \<Rightarrow> body_in \<Rightarrow> jsval \<Rightarrow> string \<Rightarrow> bool" where
  "well_formed_post sha256hex cfg tok body_in body key \<longleftrightarrow>
     validateToken sha256hex cfg tok \<and> parseJsonBody body_in = Some body \<and> \<not> nullish body \<and>
     rv_roomKey (js_or (js_prop body ''namespace'') (JStr ''global''))
                (js_or (js_prop body ''room'') (JStr ''public'')) = Some key"


text \<open>Request bodies and records of the examples below.\<close>

definition zero_ttl_body :: jsval where
  "zero_ttl_body = JObj [(''namespace'', JStr ''n''), (''room'', JStr ''r''), (''peerId'', JStr ''p''),
                         (''ttlMs'', JNum (Num 0))]"

definition negative_ttl_body :: jsval where
  "negative_ttl_body = JObj [(''namespace'', JStr ''n''), (''room'', JStr ''r''), (''peerId'', JStr ''p''),
                             (''ttlMs'', JNum (Num (- 5)))]"





subsection \<open>Peers of a room of the registry\<close>

text \<open>The records that the room with the key holds for a peer id.\<close>

definition records_of :: "registry \<Rightarrow> string \<Rightarrow> jsval \<Rightarrow> rv_record list" where
  "records_of reg key p =
     (case map_of reg key of None \<Rightarrow> [] | Some m \<Rightarrow> map snd (filter (\<lambda>(k, x). k = p) m))"

text \<open>
  The records of the room that have not expired at time \<open>t\<close>, in the order of the room's
  \<^verbatim>\<open>Map\<close>: what \<^verbatim>\<open>discover\<close> sorts.
\<close>

definition live_records :: "registry \<Rightarrow> string \<Rightarrow> int \<Rightarrow> rv_record list" where
  "live_records reg key t =
     (case map_of reg key of
        None \<Rightarrow> []
      | Some m \<Rightarrow> map snd (filter (\<lambda>(k, x). \<not> js_le (expiresAt x) (Num t)) m))"

text \<open>
  How many of these records rank before the record \<open>r\<close> in the list that \<^verbatim>\<open>discover\<close>
  sorts: those seen later than \<open>r\<close>, and those seen at the same time that entered the room
  before it (the sort is stable).
\<close>

definition ranked_before :: "rv_record list \<Rightarrow> rv_record \<Rightarrow> nat" where
  "ranked_before xs r =
     length (filter (\<lambda>x. seenAt x > seenAt r) xs) +
     length (filter (\<lambda>x. seenAt x = seenAt r) (takeWhile (\<lambda>x. peerId x \<noteq> peerId r) xs))"

text \<open>
  The number of entries that \<^verbatim>\<open>slice(0, limit)\<close> keeps of an array of \<open>n\<close> entries, for the
  \<^verbatim>\<open>limit\<close> of a \<^verbatim>\<open>discover\<close> call (\<open>None\<close>: the default of 32).
\<close>

definition kept :: "jsnum option \<Rightarrow> nat \<Rightarrow> nat" where
  "kept limit n =
     length (js_slice0 (case limit of None \<Rightarrow> Num 32 | Some l \<Rightarrow> l) (replicate n ()))"

text \<open>
  The registry, the room key and the peer id of a statement about one peer: a registry
  that satisfies the representation invariant, a namespace and a room that give the
  key, and a peer id that is a primitive value (a string, for every peer of the
  signaling endpoint).
\<close>

definition peer_setting :: "registry \<Rightarrow> jsval \<Rightarrow> jsval \<Rightarrow> string \<Rightarrow> jsval \<Rightarrow> bool" where
  "peer_setting reg ns rm key p \<longleftrightarrow>
     wf_registry reg \<and> rv_roomKey ns rm = Some key \<and> \<not> compound p"

text \<open>Peers registering one after the other in one room, each at its time.\<close>

fun register_each :: "jsval \<Rightarrow> jsval \<Rightarrow> (int \<times> jsval) list \<Rightarrow> registry \<Rightarrow> registry" where
  "register_each ns rm [] reg = reg"
| "register_each ns rm ((now, p) # ps) reg =
     (case register now ns rm p (JArr []) (Num 60000) (JObj []) reg of
        None \<Rightarrow> reg
      | Some (r, reg') \<Rightarrow> register_each ns rm ps reg')"

text \<open>
  Peer \<open>p\<close> registers at time 0 and 32 more peers, named \<open>0\<close> to \<open>31\<close>, at times 1 to 32;
  and the room where \<open>p\<close> registers, then \<open>q\<close>, then \<open>p\<close> again.
\<close>

definition later_peers :: "(int \<times> jsval) list" where
  "later_peers = map (\<lambda>i. (int i + 1, JStr (nat_digits i))) [0..<32]"

definition crowded_room :: registry where
  "crowded_room = register_each (JStr ''n'') (JStr ''r'') ((0, JStr ''p'') # later_peers) []"

definition later_ids :: "jsval list" where
  "later_ids = map snd later_peers"

definition first_record :: rv_record where
  "first_record =
     \<lparr> peerId = JStr ''p'', namespace = JStr ''n'', room = JStr ''r'', addresses = JArr [],
       metadata = JObj [], seenAt = 0, expiresAt = Num 60000 \<rparr>"

definition second_record :: rv_record where
  "second_record =
     \<lparr> peerId = JStr ''p'', namespace = JStr ''n'', room = JStr ''r'', addresses = JArr [],
       metadata = JObj [], seenAt = 10, expiresAt = Num 60010 \<rparr>"

definition pair_room :: registry where
  "pair_room =
     register_each (JStr ''n'') (JStr ''r'') [(0, JStr ''p''), (5, JStr ''q''), (10, JStr ''p'')] []"

text \<open>The same room before \<open>p\<close> registers again, and the record of \<open>q\<close>.\<close>

definition pair_before :: registry where
  "pair_before =
     register_each (JStr ''n'') (JStr ''r'') [(0, JStr ''p''), (5, JStr ''q'')] []"

definition other_record :: rv_record where
  "other_record =
     \<lparr> peerId = JStr ''q'', namespace = JStr ''n'', room = JStr ''r'', addresses = JArr [],
       metadata = JObj [], seenAt = 5, expiresAt = Num 60005 \<rparr>"

subsection \<open>Counting connections\<close>

text \<open>
  The number of room members summed over all rooms, the sum of the per-address
  connection counters, the number of live sessions (web sockets admitted and not yet
  closed) of an address and in all, and the counter of an address (\<open>0\<close> when it has no
  entry).
\<close>

definition members_total :: "server \<Rightarrow> int" where
  "members_total st = sum_list (map (\<lambda>(key, members). int (length members)) (rooms st))"

definition buckets_total :: "server \<Rightarrow> int" where
  "buckets_total st = sum_list (map snd (connectionsByIp st))"

definition live_sessions :: "server \<Rightarrow> string \<Rightarrow> int" where
  "live_sessions st ip =
     int (length (filter (\<lambda>(ws, w). readyState w \<noteq> CLOSED \<and> ws_clientIp w = ip) (sockets st)))"

definition live_total :: "server \<Rightarrow> int" where
  "live_total st = int (length (filter (\<lambda>(ws, w). readyState w \<noteq> CLOSED) (sockets st)))"

definition bucket_of :: "server \<Rightarrow> string \<Rightarrow> int" where
  "bucket_of st ip = (case map_of (connectionsByIp st) ip of None \<Rightarrow> 0 | Some c \<Rightarrow> c)"

text \<open>
  The invariant of the room hub and the connection counters: web socket addresses are
  distinct; room keys are distinct and the members of a room are distinct web sockets of
  the store; each live web socket is a member of the room of its namespace and room;
  the counter of each address is the number of its live sessions and no counter is
  zero; and the gauge, the member total and the counter total all equal the number of
  live sessions.
\<close>

definition inv_store :: "server \<Rightarrow> bool" where
  "inv_store st \<longleftrightarrow> distinct (map fst (sockets st))"

definition inv_rooms :: "server \<Rightarrow> bool" where
  "inv_rooms st \<longleftrightarrow>
     distinct (map fst (rooms st)) \<and>
     (\<forall>(key, ms) \<in> set (rooms st). distinct ms \<and> set ms \<subseteq> fst ` set (sockets st))"

definition inv_member :: "server \<Rightarrow> bool" where
  "inv_member st \<longleftrightarrow>
     (\<forall>(ws, w) \<in> set (sockets st). readyState w \<noteq> CLOSED \<longrightarrow>
        (\<exists>ms. map_of (rooms st) (roomKey (ws_namespace w) (ws_room w)) = Some ms \<and> ws \<in> set ms))"

definition inv_bucket :: "server \<Rightarrow> bool" where
  "inv_bucket st \<longleftrightarrow>
     distinct (map fst (connectionsByIp st)) \<and>
     (\<forall>ip. bucket_of st ip = live_sessions st ip) \<and>
     (\<forall>(ip, c) \<in> set (connectionsByIp st). 0 < c)"

definition inv_total :: "server \<Rightarrow> bool" where
  "inv_total st \<longleftrightarrow>
     wsActiveConnections (metrics st) = live_total st \<and>
     members_total st = live_total st \<and>
     buckets_total st = live_total st"

definition hub_inv :: "server \<Rightarrow> bool" where
  "hub_inv st \<longleftrightarrow> inv_store st \<and> inv_rooms st \<and> inv_member st \<and> inv_bucket st \<and> inv_total st"

text \<open>The token of an upgrade request passes \<^verbatim>\<open>validateToken\<close>.\<close>

fun token_ok :: "(string \<Rightarrow> string) \<Rightarrow> config \<Rightarrow> event \<Rightarrow> bool" where
  "token_ok sha256hex cfg (Upgrade req now isoNow) = validateToken sha256hex cfg (token req)"
| "token_ok sha256hex cfg _ = True"

text \<open>
  The fifth scenario of the specification: a digest is configured (here with a stand-in
  for SHA-256), and an upgrade request carries the token \<^verbatim>\<open>wrong\<close>.
\<close>

definition wrong_token_req :: upgrade_request where
  "wrong_token_req =
     \<lparr> pathname = ''/signal'', clientIp = ''10.0.0.9'', token = ''wrong'', q_namespace = Some ''n'',
       q_room = Some ''r'', q_peerId = Some ''A'', generated_peerId = ''peer-0-abc'' \<rparr>"

definition right_token_req :: upgrade_request where
  "right_token_req =
     \<lparr> pathname = ''/signal'', clientIp = ''10.0.0.9'', token = ''abc'', q_namespace = Some ''n'',
       q_room = Some ''r'', q_peerId = Some ''A'', generated_peerId = ''peer-0-abc'' \<rparr>"

definition after_wrong_token :: server where
  "after_wrong_token = fst (on_upgrade rev digest_cfg 0 ''t0'' wrong_token_req init_server)"

section \<open>Properties of the rendezvous registry\<close>

lemma js_not_le_iff: "\<not> js_le x (Num t) \<longleftrightarrow> js_gt x (Num t) \<or> x = NaN"
  by (cases x) (auto simp: js_gt_def)

lemma prune_room_filter:
  "prune_room now m = filter (\<lambda>(k, r). \<not> js_le (expiresAt r) (Num now)) m"
  by (induction m) auto

lemma pruneExpired_filter:
  "pruneExpired now reg =
     filter (\<lambda>(key, m). m \<noteq> []) (map (\<lambda>(key, m). (key, prune_room now m)) reg)"
  by (induction reg) (auto simp: Let_def)

text \<open>
  Claim C7, as the code has it. After \<^verbatim>\<open>pruneExpired(t)\<close> no remaining record satisfies
  \<^verbatim>\<open>expiresAt <= t\<close>: each has \<^verbatim>\<open>expiresAt > t\<close> or an \<^verbatim>\<open>expiresAt\<close> of \<open>NaN\<close>, which no
  comparison removes. The records removed are exactly those with \<^verbatim>\<open>expiresAt <= t\<close>, and
  no room is left with an empty map.
\<close>

theorem pruneExpired_removes_expired:
  "(\<forall>(key, m) \<in> set (pruneExpired t reg). m \<noteq> [] \<and>
       (\<forall>(k, r) \<in> set m. \<not> js_le (expiresAt r) (Num t) \<and>
                          (js_gt (expiresAt r) (Num t) \<or> expiresAt r = NaN)))
   \<and> pruneExpired t reg =
       filter (\<lambda>(key, m). m \<noteq> [])
         (map (\<lambda>(key, m). (key, filter (\<lambda>(k, r). \<not> js_le (expiresAt r) (Num t)) m)) reg)"
proof -
  have eq: "pruneExpired t reg =
       filter (\<lambda>(key, m). m \<noteq> [])
         (map (\<lambda>(key, m). (key, filter (\<lambda>(k, r). \<not> js_le (expiresAt r) (Num t)) m)) reg)"
    by (simp add: pruneExpired_filter prune_room_filter)
  have "\<forall>(key, m) \<in> set (pruneExpired t reg). m \<noteq> [] \<and>
       (\<forall>(k, r) \<in> set m. \<not> js_le (expiresAt r) (Num t))"
    unfolding eq by auto
  then show ?thesis using eq js_not_le_iff by fastforce
qed

theorem pruneExpired_removes_expired_witness:
  "pruneExpired 600
     [(''n::r'', [(JStr ''p'', nan_record), (JStr ''q'', live_record)]),
      (''m::r'', [(JStr ''s'', stale_record)])]
     = [(''n::r'', [(JStr ''p'', nan_record), (JStr ''q'', live_record)])]
   \<and> js_gt (expiresAt live_record) (Num 600)
   \<and> expiresAt nan_record = NaN"
proof -
  note inst = pruneExpired_removes_expired[of 600
       "[(''n::r'', [(JStr ''p'', nan_record), (JStr ''q'', live_record)]),
         (''m::r'', [(JStr ''s'', stale_record)])]"]
  have a: "js_le (expiresAt stale_record) (Num 600)" "\<not> js_le (expiresAt live_record) (Num 600)"
          "\<not> js_le (expiresAt nan_record) (Num 600)"
    by (simp_all add: stale_record_def live_record_def nan_record_def)
  have b: "pruneExpired 600
     [(''n::r'', [(JStr ''p'', nan_record), (JStr ''q'', live_record)]),
      (''m::r'', [(JStr ''s'', stale_record)])]
     = [(''n::r'', [(JStr ''p'', nan_record), (JStr ''q'', live_record)])]"
    using conjunct2[OF inst] a
    by (simp del: pruneExpired.simps)
  have l: "expiresAt live_record \<noteq> NaN" by (simp add: live_record_def)
  have c: "js_gt (expiresAt live_record) (Num 600)"
    using conjunct1[OF inst] l unfolding b by simp
  have d: "expiresAt nan_record = NaN"
    by (simp add: nan_record_def)
  show ?thesis by (intro conjI) (rule b, rule c, rule d)
qed

text \<open>
  Claim C7 as stated fails: a record whose \<^verbatim>\<open>expiresAt\<close> is \<open>NaN\<close> (stored by a
  \<^verbatim>\<open>POST /rendezvous/register\<close> whose \<^verbatim>\<open>ttlMs\<close> is a string that is not a number) survives
  \<^verbatim>\<open>pruneExpired(600)\<close>, and its \<^verbatim>\<open>expiresAt > 600\<close> is false.
\<close>

theorem pruneExpired_keeps_NaN_record:
  "pruneExpired 600 [(''n::r'', [(JStr ''p'', nan_record)])] = [(''n::r'', [(JStr ''p'', nan_record)])]
   \<and> \<not> js_gt (expiresAt nan_record) (Num 600)"
  by (simp add: nan_record_def js_gt_def)

section \<open>Properties of the signaling endpoint\<close>

subsection \<open>Credential verification\<close>

text \<open>
  Claim C4. \<^verbatim>\<open>validateToken(rawToken)\<close> is true if and only if no digest is configured,
  or the token is non-empty and its hexadecimal SHA-256 digest equals the configured one.
  In particular an empty token is rejected whenever a digest is configured, and every
  token passes when none is.
\<close>

theorem validateToken_iff:
  "(validateToken sha256hex cfg rawToken \<longleftrightarrow>
      SHARED_TOKEN_HASH cfg = [] \<or>
      (rawToken \<noteq> [] \<and> sha256hex rawToken = SHARED_TOKEN_HASH cfg))
   \<and> (SHARED_TOKEN_HASH cfg \<noteq> [] \<longrightarrow> \<not> validateToken sha256hex cfg [])
   \<and> (SHARED_TOKEN_HASH cfg = [] \<longrightarrow> validateToken sha256hex cfg rawToken)"
  by (auto simp: validateToken_def timingSafeEqual_def Let_def)

theorem validateToken_iff_witness:
  "validateToken rev digest_cfg ''abc''
   \<and> \<not> validateToken rev digest_cfg ''abd''
   \<and> \<not> validateToken rev digest_cfg []
   \<and> validateToken rev scenario_cfg []"
  using validateToken_iff[of rev digest_cfg "''abc''"]
        validateToken_iff[of rev digest_cfg "''abd''"]
        validateToken_iff[of rev scenario_cfg "[]"]
  by (simp add: scenario_cfg_def digest_cfg_def)

subsection \<open>Fan-out\<close>

lemma relay_members_eq:
  "relay_members socks members senderId payload =
     map (\<lambda>r. WsSend r payload)
       (filter (\<lambda>r. case map_of socks r of
                       None \<Rightarrow> False
                     | Some w \<Rightarrow> \<not> (ws_peerId w = senderId \<or> readyState w \<noteq> OPEN)) members)"
  by (induction members) (auto split: option.splits)

lemma relayToRoom_fanout_spec:
  "relayToRoom st ns rm senderId payload = fanout_spec st ns rm senderId payload"
  by (simp add: relayToRoom_def fanout_spec_def relay_members_eq split: option.splits)

lemma fanout_spec_recipient:
  "WsSend r v \<in> set (fanout_spec st ns rm senderId payload) \<Longrightarrow>
     \<exists>w. map_of (sockets st) r = Some w \<and> ws_peerId w \<noteq> senderId \<and> readyState w = OPEN \<and>
         v = payload"
  by (auto simp: fanout_spec_def split: option.splits)

lemma open_window_frame:
  "rooms (snd (open_window now ip st)) = rooms st"
  "sockets (snd (open_window now ip st)) = sockets st"
  "metrics (snd (open_window now ip st)) = metrics st"
  "rendezvous (snd (open_window now ip st)) = rendezvous st"
  "peers (snd (open_window now ip st)) = peers st"
  "connectionsByIp (snd (open_window now ip st)) = connectionsByIp st"
  by (auto simp: open_window_def Let_def split: option.splits)

lemma allowMessage_frame:
  "rooms (snd (allowMessage cfg now ip st)) = rooms st"
  "sockets (snd (allowMessage cfg now ip st)) = sockets st"
  "rendezvous (snd (allowMessage cfg now ip st)) = rendezvous st"
  "peers (snd (allowMessage cfg now ip st)) = peers st"
  "connectionsByIp (snd (allowMessage cfg now ip st)) = connectionsByIp st"
  using open_window_frame[of now ip st]
  by (auto simp: allowMessage_def Let_def split: prod.splits)

lemma on_message_relayed:
  assumes "relayed cfg now w message st"
  shows "snd (on_message cfg now isoNow ws w (Some message) st) =
           fanout_spec st (ws_namespace w) (ws_room w) (ws_peerId w)
             (relayPayload message (ws_peerId w) (ws_namespace w) (ws_room w) isoNow)"
proof -
  obtain st1 where a: "allowMessage cfg now (ws_clientIp w) st = (True, st1)"
    using assms by (cases "allowMessage cfg now (ws_clientIp w) st") (auto simp: relayed_def)
  have fr: "rooms st1 = rooms st" "sockets st1 = sockets st"
    using allowMessage_frame(1,2)[of cfg now "ws_clientIp w" st] a by simp_all
  show ?thesis using assms a fr
    by (simp add: on_message_def relayed_def Let_def relayToRoom_fanout_spec fanout_spec_def)
qed

text \<open>
  Claim C2. \<^verbatim>\<open>relayToRoom\<close> is the fan-out of the specification: it sends the envelope to
  exactly the members of the room that are open and whose peer id is not the sender's, in
  the order of the room. So no member with the sender's peer id and no member that is not
  open is sent anything, and a message that the handler relays is never sent back to the
  web socket it came from.
\<close>

theorem fanout_excludes_sender:
  "relayToRoom st ns rm senderId payload = fanout_spec st ns rm senderId payload
   \<and> (\<forall>r w v. map_of (sockets st) r = Some w \<and> (ws_peerId w = senderId \<or> readyState w \<noteq> OPEN)
         \<longrightarrow> WsSend r v \<notin> set (relayToRoom st ns rm senderId payload))
   \<and> (\<forall>cfg now isoNow ws w message.
         map_of (sockets st) ws = Some w \<and> relayed cfg now w message st
         \<longrightarrow> (\<forall>v. WsSend ws v \<notin> set (snd (on_message cfg now isoNow ws w (Some message) st))))"
proof (intro conjI allI impI)
  show "relayToRoom st ns rm senderId payload = fanout_spec st ns rm senderId payload"
    by (rule relayToRoom_fanout_spec)
next
  fix r w v
  assume "map_of (sockets st) r = Some w \<and> (ws_peerId w = senderId \<or> readyState w \<noteq> OPEN)"
  then show "WsSend r v \<notin> set (relayToRoom st ns rm senderId payload)"
    using fanout_spec_recipient[of r v st ns rm senderId payload]
    by (auto simp: relayToRoom_fanout_spec)
next
  fix cfg now isoNow ws w message v
  assume h: "map_of (sockets st) ws = Some w \<and> relayed cfg now w message st"
  then show "WsSend ws v \<notin> set (snd (on_message cfg now isoNow ws w (Some message) st))"
    using fanout_spec_recipient[of ws v st "ws_namespace w" "ws_room w" "ws_peerId w"]
    by (auto simp: on_message_relayed)
qed

theorem fanout_excludes_sender_witness:
  "map_of (sockets scenario_room) 0 = Some socket_A
   \<and> relayed scenario_cfg 10 socket_A scenario_offer scenario_room
   \<and> snd (on_message scenario_cfg 10 ''t3'' 0 socket_A (Some scenario_offer) scenario_room)
       = [WsSend 1 scenario_envelope, WsSend 2 scenario_envelope]
   \<and> WsSend 0 scenario_envelope
       \<notin> set (snd (on_message scenario_cfg 10 ''t3'' 0 socket_A (Some scenario_offer) scenario_room))
   \<and> map_of (sockets closing_room) 1 = Some socket_B_closing
   \<and> relayToRoom closing_room ''n'' ''r'' ''A'' scenario_envelope = [WsSend 2 scenario_envelope]
   \<and> WsSend 1 scenario_envelope \<notin> set (relayToRoom closing_room ''n'' ''r'' ''A'' scenario_envelope)"
proof -
  have a: "map_of (sockets scenario_room) 0 = Some socket_A" by code_simp
  have b: "relayed scenario_cfg 10 socket_A scenario_offer scenario_room" by code_simp
  have c: "snd (on_message scenario_cfg 10 ''t3'' 0 socket_A (Some scenario_offer) scenario_room)
       = [WsSend 1 scenario_envelope, WsSend 2 scenario_envelope]" by code_simp
  have d: "WsSend 0 scenario_envelope
       \<notin> set (snd (on_message scenario_cfg 10 ''t3'' 0 socket_A (Some scenario_offer) scenario_room))"
    using fanout_excludes_sender[of scenario_room "''n''" "''r''" "''A''" scenario_envelope] a b
    by blast
  have e: "map_of (sockets closing_room) 1 = Some socket_B_closing" by code_simp
  have f: "relayToRoom closing_room ''n'' ''r'' ''A'' scenario_envelope = [WsSend 2 scenario_envelope]"
    by code_simp
  have n: "readyState socket_B_closing \<noteq> OPEN" by (simp add: socket_B_closing_def)
  have g: "WsSend 1 scenario_envelope \<notin> set (relayToRoom closing_room ''n'' ''r'' ''A'' scenario_envelope)"
    using fanout_excludes_sender[of closing_room "''n''" "''r''" "''A''" scenario_envelope] e n
    by blast
  show ?thesis by (intro conjI) (rule a, rule b, rule c, rule d, rule e, rule f, rule g)
qed

subsection \<open>The relay envelope\<close>

lemma relayPayload_merge:
  "relayPayload message pid ns rm isoNow =
     JObj (shallow_merge (js_spread message)
             [(''sourcePeerId'', JStr pid), (''namespace'', JStr ns), (''room'', JStr rm),
              (''receivedAt'', JStr isoNow)])"
  by (simp add: relayPayload_def shallow_merge_def)

lemma relayPayload_prop:
  "js_prop (relayPayload message pid ns rm isoNow) k =
     (if k = ''receivedAt'' then JStr isoNow
      else if k = ''room'' then JStr rm
      else if k = ''namespace'' then JStr ns
      else if k = ''sourcePeerId'' then JStr pid
      else (case map_of (js_spread message) k of None \<Rightarrow> JUndefined | Some v \<Rightarrow> v))"
  by (simp add: relayPayload_def update_conv')

text \<open>
  Claim C3. The envelope that the handler relays for a parsed message is the shallow merge
  of the message with the four stamped fields \<^verbatim>\<open>sourcePeerId\<close>, \<^verbatim>\<open>namespace\<close>, \<^verbatim>\<open>room\<close>
  and \<^verbatim>\<open>receivedAt\<close>: these four carry the server's values whatever the client sent, every
  other field of a client object reads as the client sent it, and every frame that the
  relay branch sends carries this envelope.
\<close>

theorem relay_envelope_is_shallow_merge:
  "relayPayload message pid ns rm isoNow =
     JObj (shallow_merge (js_spread message)
             [(''sourcePeerId'', JStr pid), (''namespace'', JStr ns), (''room'', JStr rm),
              (''receivedAt'', JStr isoNow)])
   \<and> js_prop (relayPayload message pid ns rm isoNow) ''sourcePeerId'' = JStr pid
   \<and> js_prop (relayPayload message pid ns rm isoNow) ''namespace'' = JStr ns
   \<and> js_prop (relayPayload message pid ns rm isoNow) ''room'' = JStr rm
   \<and> js_prop (relayPayload message pid ns rm isoNow) ''receivedAt'' = JStr isoNow
   \<and> (\<forall>kvs k. message = JObj kvs \<and> k \<notin> {''sourcePeerId'', ''namespace'', ''room'', ''receivedAt''}
         \<longrightarrow> js_prop (relayPayload message pid ns rm isoNow) k = js_prop message k)
   \<and> (\<forall>cfg now ws w st e.
         relayed cfg now w message st \<and>
         e \<in> set (snd (on_message cfg now isoNow ws w (Some message) st))
         \<longrightarrow> (\<exists>r. e = WsSend r (relayPayload message (ws_peerId w) (ws_namespace w) (ws_room w) isoNow)))"
proof (intro conjI allI impI)
  show "relayPayload message pid ns rm isoNow =
     JObj (shallow_merge (js_spread message)
             [(''sourcePeerId'', JStr pid), (''namespace'', JStr ns), (''room'', JStr rm),
              (''receivedAt'', JStr isoNow)])"
    by (rule relayPayload_merge)
next
  fix kvs k
  assume "message = JObj kvs \<and> k \<notin> {''sourcePeerId'', ''namespace'', ''room'', ''receivedAt''}"
  then show "js_prop (relayPayload message pid ns rm isoNow) k = js_prop message k"
    by (simp add: relayPayload_prop)
next
  fix cfg now ws w st e
  assume "relayed cfg now w message st \<and>
         e \<in> set (snd (on_message cfg now isoNow ws w (Some message) st))"
  then show "\<exists>r. e = WsSend r (relayPayload message (ws_peerId w) (ws_namespace w) (ws_room w) isoNow)"
    by (auto simp: on_message_relayed fanout_spec_def)
qed (simp_all add: relayPayload_prop)

theorem relay_envelope_is_shallow_merge_witness:
  "relayPayload scenario_offer ''A'' ''n'' ''r'' ''t3'' = scenario_envelope
   \<and> js_prop scenario_offer ''room'' = JStr ''elsewhere''
   \<and> js_prop (relayPayload scenario_offer ''A'' ''n'' ''r'' ''t3'') ''room'' = JStr ''r''
   \<and> js_prop (relayPayload scenario_offer ''A'' ''n'' ''r'' ''t3'') ''sdp'' = JStr ''v=0''
   \<and> js_prop (relayPayload scenario_offer ''A'' ''n'' ''r'' ''t3'') ''type'' = JStr ''offer''
   \<and> relayed scenario_cfg 10 socket_A scenario_offer scenario_room
   \<and> WsSend 2 scenario_envelope
        \<in> set (snd (on_message scenario_cfg 10 ''t3'' 0 socket_A (Some scenario_offer) scenario_room))
   \<and> (\<exists>r. WsSend 2 scenario_envelope =
            WsSend r (relayPayload scenario_offer (ws_peerId socket_A) (ws_namespace socket_A)
                        (ws_room socket_A) ''t3''))"
proof -
  note inst = relay_envelope_is_shallow_merge[of scenario_offer "''A''" "''n''" "''r''" "''t3''"]
  have a: "relayPayload scenario_offer ''A'' ''n'' ''r'' ''t3'' = scenario_envelope"
    using conjunct1[OF inst]
    by (simp add: scenario_offer_def scenario_envelope_def shallow_merge_def)
  have b: "js_prop scenario_offer ''room'' = JStr ''elsewhere''"
    by (simp add: scenario_offer_def)
  have c: "js_prop (relayPayload scenario_offer ''A'' ''n'' ''r'' ''t3'') ''room'' = JStr ''r''"
    using inst by blast
  have pres: "\<And>k. k \<notin> {''sourcePeerId'', ''namespace'', ''room'', ''receivedAt''} \<Longrightarrow>
      js_prop (relayPayload scenario_offer ''A'' ''n'' ''r'' ''t3'') k = js_prop scenario_offer k"
    using inst unfolding scenario_offer_def by blast
  have d: "js_prop (relayPayload scenario_offer ''A'' ''n'' ''r'' ''t3'') ''sdp'' = JStr ''v=0''"
    using pres[of "''sdp''"] by (simp add: scenario_offer_def)
  have e: "js_prop (relayPayload scenario_offer ''A'' ''n'' ''r'' ''t3'') ''type'' = JStr ''offer''"
    using pres[of "''type''"] by (simp add: scenario_offer_def)
  have f: "relayed scenario_cfg 10 socket_A scenario_offer scenario_room" by code_simp
  have g: "WsSend 2 scenario_envelope
        \<in> set (snd (on_message scenario_cfg 10 ''t3'' 0 socket_A (Some scenario_offer) scenario_room))"
    by code_simp
  have h: "\<exists>r. WsSend 2 scenario_envelope =
            WsSend r (relayPayload scenario_offer (ws_peerId socket_A) (ws_namespace socket_A)
                        (ws_room socket_A) ''t3'')"
    using inst f g by blast
  show ?thesis by (intro conjI) (rule a, rule b, rule c, rule d, rule e, rule f, rule g, rule h)
qed

subsection \<open>Peer ids are not unique\<close>

lemma fresh_ws_notin: "fresh_ws st \<notin> fst ` set (sockets st)"
proof
  assume a: "fresh_ws st \<in> fst ` set (sockets st)"
  then have ne: "sockets st \<noteq> []" by auto
  have "fresh_ws st \<le> Max (fst ` set (sockets st))"
    using a by (intro Max_ge) auto
  then show False using ne by (simp add: fresh_ws_def)
qed

lemma fresh_ws_None: "map_of (sockets st) (fresh_ws st) = None"
  using fresh_ws_notin[of st] by (simp add: map_of_eq_None_iff)

lemma on_connection_frame:
  "sockets (fst (on_connection now isoNow ns rm ip pid st)) =
     sockets st @ [(fresh_ws st, \<lparr> ws_peerId = pid, ws_namespace = ns, ws_room = rm,
                          ws_clientIp = ip, readyState = OPEN \<rparr>)]"
  "rooms (fst (on_connection now isoNow ns rm ip pid st)) =
     AList.update (roomKey ns rm)
       (Set_add (fresh_ws st) (case map_of (rooms st) (roomKey ns rm) of None \<Rightarrow> [] | Some ms \<Rightarrow> ms))
       (rooms st)"
  "connectionsByIp (fst (on_connection now isoNow ns rm ip pid st)) = connectionsByIp st"
  "rateLimitByIp (fst (on_connection now isoNow ns rm ip pid st)) = rateLimitByIp st"
  by (auto simp: on_connection_def ensureRoom_def Let_def split: option.splits prod.splits)

lemma allowConnection_frame:
  "sockets (snd (allowConnection cfg ip st)) = sockets st"
  "rooms (snd (allowConnection cfg ip st)) = rooms st"
  "peers (snd (allowConnection cfg ip st)) = peers st"
  "rendezvous (snd (allowConnection cfg ip st)) = rendezvous st"
  "rateLimitByIp (snd (allowConnection cfg ip st)) = rateLimitByIp st"
  by (auto simp: allowConnection_def Let_def)

lemma fresh_ws_cong: "sockets st' = sockets st \<Longrightarrow> fresh_ws st' = fresh_ws st"
  by (simp add: fresh_ws_def)

lemma on_upgrade_admitted:
  assumes "admitted sha256hex cfg req st"
  shows "on_upgrade sha256hex cfg now isoNow req st =
           on_connection now isoNow (param_or (q_namespace req) ''global'')
             (param_or (q_room req) ''public'') (clientIp req)
             (param_or (q_peerId req) (generated_peerId req))
             (snd (allowConnection cfg (clientIp req) st))"
  using assms by (auto simp: on_upgrade_def admitted_def Let_def split: prod.splits)

lemma on_upgrade_admits:
  assumes "admitted sha256hex cfg req st"
  shows "map_of (sockets (fst (on_upgrade sha256hex cfg now isoNow req st))) (fresh_ws st) =
           Some \<lparr> ws_peerId = param_or (q_peerId req) (generated_peerId req),
                  ws_namespace = param_or (q_namespace req) ''global'',
                  ws_room = param_or (q_room req) ''public'',
                  ws_clientIp = clientIp req, readyState = OPEN \<rparr>"
    and "\<exists>ms. map_of (rooms (fst (on_upgrade sha256hex cfg now isoNow req st)))
              (roomKey (param_or (q_namespace req) ''global'') (param_or (q_room req) ''public'')) = Some ms
            \<and> fresh_ws st \<in> set ms"
    and "map_of (sockets st) ws = Some w \<Longrightarrow>
           map_of (sockets (fst (on_upgrade sha256hex cfg now isoNow req st))) ws = Some w"
proof -
  let ?st1 = "snd (allowConnection cfg (clientIp req) st)"
  let ?ns = "param_or (q_namespace req) ''global''"
  let ?rm = "param_or (q_room req) ''public''"
  let ?pid = "param_or (q_peerId req) (generated_peerId req)"
  let ?st' = "fst (on_connection now isoNow ?ns ?rm (clientIp req) ?pid ?st1)"
  have up: "fst (on_upgrade sha256hex cfg now isoNow req st) = ?st'"
    by (simp only: on_upgrade_admitted[OF assms])
  have f: "fresh_ws ?st1 = fresh_ws st"
    by (rule fresh_ws_cong) (simp add: allowConnection_frame)
  have socks: "sockets ?st' = sockets st @ [(fresh_ws st,
        \<lparr> ws_peerId = ?pid, ws_namespace = ?ns, ws_room = ?rm,
          ws_clientIp = clientIp req, readyState = OPEN \<rparr>)]"
    by (simp only: on_connection_frame(1) f allowConnection_frame(1))
  have rms: "rooms ?st' = AList.update (roomKey ?ns ?rm)
       (Set_add (fresh_ws st) (case map_of (rooms st) (roomKey ?ns ?rm) of None \<Rightarrow> [] | Some ms \<Rightarrow> ms))
       (rooms st)"
    by (simp only: on_connection_frame(2) f allowConnection_frame(2))
  have n: "map_of (sockets st) (fresh_ws st) = None" by (rule fresh_ws_None)
  show "map_of (sockets (fst (on_upgrade sha256hex cfg now isoNow req st))) (fresh_ws st) =
           Some \<lparr> ws_peerId = ?pid, ws_namespace = ?ns, ws_room = ?rm,
                  ws_clientIp = clientIp req, readyState = OPEN \<rparr>"
    unfolding up socks using n by (simp add: map_add_def)
  show "\<exists>ms. map_of (rooms (fst (on_upgrade sha256hex cfg now isoNow req st)))
              (roomKey ?ns ?rm) = Some ms \<and> fresh_ws st \<in> set ms"
    unfolding up rms by (simp add: update_conv' Set_add_def)
  show "map_of (sockets st) ws = Some w \<Longrightarrow>
           map_of (sockets (fst (on_upgrade sha256hex cfg now isoNow req st))) ws = Some w"
    unfolding up socks by (simp add: map_add_def)
qed

text \<open>
  Claim C9. The upgrade handler admits a request whatever peer ids are already in use: the
  new web socket joins its room under the requested peer id and the sockets admitted
  before stay as they are. And a relayed message is sent neither to its sender nor to any
  other web socket with the sender's peer id.
\<close>

theorem duplicate_peer_id_excluded:
  "(\<forall>sha256hex cfg now isoNow req.
      admitted sha256hex cfg req st \<longrightarrow>
        map_of (sockets (fst (on_upgrade sha256hex cfg now isoNow req st))) (fresh_ws st) =
           Some \<lparr> ws_peerId = param_or (q_peerId req) (generated_peerId req),
                  ws_namespace = param_or (q_namespace req) ''global'',
                  ws_room = param_or (q_room req) ''public'',
                  ws_clientIp = clientIp req, readyState = OPEN \<rparr>
        \<and> (\<exists>ms. map_of (rooms (fst (on_upgrade sha256hex cfg now isoNow req st)))
              (roomKey (param_or (q_namespace req) ''global'') (param_or (q_room req) ''public'')) = Some ms
            \<and> fresh_ws st \<in> set ms)
        \<and> (\<forall>ws w. map_of (sockets st) ws = Some w \<longrightarrow>
              map_of (sockets (fst (on_upgrade sha256hex cfg now isoNow req st))) ws = Some w))
   \<and> (\<forall>a wa b wb cfg now isoNow message v.
        map_of (sockets st) a = Some wa \<and> map_of (sockets st) b = Some wb \<and>
        ws_peerId wa = ws_peerId wb \<and> relayed cfg now wa message st
        \<longrightarrow> WsSend a v \<notin> set (snd (on_message cfg now isoNow a wa (Some message) st))
          \<and> WsSend b v \<notin> set (snd (on_message cfg now isoNow a wa (Some message) st)))"
proof (intro conjI allI impI)
  fix a wa b wb cfg now isoNow message v
  assume h: "map_of (sockets st) a = Some wa \<and> map_of (sockets st) b = Some wb \<and>
        ws_peerId wa = ws_peerId wb \<and> relayed cfg now wa message st"
  then have eq: "snd (on_message cfg now isoNow a wa (Some message) st) =
      fanout_spec st (ws_namespace wa) (ws_room wa) (ws_peerId wa)
        (relayPayload message (ws_peerId wa) (ws_namespace wa) (ws_room wa) isoNow)"
    by (simp add: on_message_relayed)
  have excl: "\<And>r w. map_of (sockets st) r = Some w \<Longrightarrow> ws_peerId w = ws_peerId wa \<Longrightarrow>
      WsSend r v \<notin> set (snd (on_message cfg now isoNow a wa (Some message) st))"
  proof
    fix r w
    assume r: "map_of (sockets st) r = Some w" "ws_peerId w = ws_peerId wa"
       and m: "WsSend r v \<in> set (snd (on_message cfg now isoNow a wa (Some message) st))"
    from m obtain w' where "map_of (sockets st) r = Some w'" "ws_peerId w' \<noteq> ws_peerId wa"
      unfolding eq using fanout_spec_recipient by blast
    with r show False by simp
  qed
  show "WsSend a v \<notin> set (snd (on_message cfg now isoNow a wa (Some message) st))"
    using excl[of a wa] h by simp
  show "WsSend b v \<notin> set (snd (on_message cfg now isoNow a wa (Some message) st))"
    using excl[of b wb] h by simp
qed (simp_all add: on_upgrade_admits)

theorem duplicate_peer_id_excluded_witness:
  "map_of (sockets single_room) 0 = Some socket_A
   \<and> admitted (\<lambda>s. s) scenario_cfg (scenario_req ''10.0.0.3'' ''A'') single_room
   \<and> fresh_ws single_room = 1
   \<and> map_of (sockets (fst (on_upgrade (\<lambda>s. s) scenario_cfg 1 ''t1''
               (scenario_req ''10.0.0.3'' ''A'') single_room))) 1 = Some socket_A2
   \<and> map_of (sockets (fst (on_upgrade (\<lambda>s. s) scenario_cfg 1 ''t1''
               (scenario_req ''10.0.0.3'' ''A'') single_room))) 0 = Some socket_A
   \<and> map_of (sockets twin_room) 0 = Some socket_A
   \<and> map_of (sockets twin_room) 1 = Some socket_A2
   \<and> map_of (rooms twin_room) ''n::r'' = Some [0, 1, 2]
   \<and> relayed scenario_cfg 10 socket_A scenario_offer twin_room
   \<and> snd (on_message scenario_cfg 10 ''t3'' 0 socket_A (Some scenario_offer) twin_room)
       = [WsSend 2 scenario_envelope]
   \<and> WsSend 1 scenario_envelope
       \<notin> set (snd (on_message scenario_cfg 10 ''t3'' 0 socket_A (Some scenario_offer) twin_room))"
proof -
  note up = conjunct1[OF duplicate_peer_id_excluded[of single_room], rule_format,
      of "\<lambda>s. s" scenario_cfg "scenario_req ''10.0.0.3'' ''A''" 1 "''t1''"]
  have s0: "map_of (sockets single_room) 0 = Some socket_A" by code_simp
  have ad: "admitted (\<lambda>s. s) scenario_cfg (scenario_req ''10.0.0.3'' ''A'') single_room" by code_simp
  have fr: "fresh_ws single_room = 1" by code_simp
  have s1: "map_of (sockets (fst (on_upgrade (\<lambda>s. s) scenario_cfg 1 ''t1''
               (scenario_req ''10.0.0.3'' ''A'') single_room))) 1 = Some socket_A2"
    using conjunct1[OF up[OF ad]] unfolding fr
    by (simp add: scenario_req_def param_or_def socket_A2_def)
  have s2: "map_of (sockets (fst (on_upgrade (\<lambda>s. s) scenario_cfg 1 ''t1''
               (scenario_req ''10.0.0.3'' ''A'') single_room))) 0 = Some socket_A"
    using conjunct2[OF conjunct2[OF up[OF ad]]] s0 by blast
  have a: "map_of (sockets twin_room) 0 = Some socket_A" by code_simp
  have b: "map_of (sockets twin_room) 1 = Some socket_A2" by code_simp
  have c: "map_of (rooms twin_room) ''n::r'' = Some [0, 1, 2]" by code_simp
  have d: "relayed scenario_cfg 10 socket_A scenario_offer twin_room" by code_simp
  have e: "snd (on_message scenario_cfg 10 ''t3'' 0 socket_A (Some scenario_offer) twin_room)
       = [WsSend 2 scenario_envelope]" by code_simp
  have p: "ws_peerId socket_A = ws_peerId socket_A2" by (simp add: socket_A_def socket_A2_def)
  have f: "WsSend 1 scenario_envelope
       \<notin> set (snd (on_message scenario_cfg 10 ''t3'' 0 socket_A (Some scenario_offer) twin_room))"
    using conjunct2[OF duplicate_peer_id_excluded[of twin_room]] a b d p by blast
  show ?thesis
    by (intro conjI) (rule s0, rule ad, rule fr, rule s1, rule s2, rule a, rule b, rule c, rule d, rule e, rule f)
qed

subsection \<open>The message rate limit\<close>





















lemma handle_all_length: "length (handle_all cfg fs st) = length fs"
  by (induction fs arbitrary: st) (auto simp: split_beta)








section \<open>The time-to-live of registered records\<close>

lemma set_update_subset: "set (AList.update k v al) \<subseteq> insert (k, v) (set al)"
  by (induction al) auto

lemma update_mem: "(k, v) \<in> set (AList.update k v al)"
  by (induction al) auto

lemma Map_set_subset: "set (Map_set k v m) \<subseteq> insert (k, v) (set m)"
  using set_update_subset[of k v m] by (auto simp: Map_set_def)

lemma Map_set_mem: "(k, v) \<in> set (Map_set k v m)"
  by (simp add: Map_set_def update_mem)

lemma set_delete_subset: "set (AList.delete k al) \<subseteq> set al"
  by (auto simp: AList.delete_eq)


lemma all_records_iff:
  "r \<in> set (all_records reg) \<longleftrightarrow> (\<exists>key m pid. (key, m) \<in> set reg \<and> (pid, r) \<in> set m)"
  by (force simp: all_records_def)

lemma all_records_update:
  "set (all_records (AList.update key m reg)) \<subseteq> snd ` set m \<union> set (all_records reg)"
proof
  fix r assume "r \<in> set (all_records (AList.update key m reg))"
  then obtain k' m' pid where a: "(k', m') \<in> set (AList.update key m reg)" "(pid, r) \<in> set m'"
    by (auto simp: all_records_iff)
  then have "(k', m') = (key, m) \<or> (k', m') \<in> set reg" using set_update_subset[of key m reg] by auto
  then show "r \<in> snd ` set m \<union> set (all_records reg)"
    using a(2) by (force simp: all_records_iff)
qed


lemma map_of_records: "map_of reg key = Some m \<Longrightarrow> snd ` set m \<subseteq> set (all_records reg)"
  by (force simp: all_records_iff dest: map_of_SomeD)

lemma register_result:
  assumes "register now ns rm pid addrs ttl meta reg = Some (r, reg')"
  shows "r = \<lparr> peerId = pid, namespace = ns, room = rm, addresses = addrs, metadata = meta,
              seenAt = now, expiresAt = js_add (Num now) ttl \<rparr>"
    and "set (all_records reg') \<subseteq> insert r (set (all_records reg))"
    and "\<exists>key. rv_roomKey ns rm = Some key \<and> stored_at reg' key pid r"
proof -
  obtain key where k: "rv_roomKey ns rm = Some key"
    using assms by (auto simp: register_def split: option.splits)
  let ?m = "case map_of reg key of None \<Rightarrow> [] | Some m \<Rightarrow> m"
  show r: "r = \<lparr> peerId = pid, namespace = ns, room = rm, addresses = addrs, metadata = meta,
              seenAt = now, expiresAt = js_add (Num now) ttl \<rparr>"
    using assms k by (auto simp: register_def Let_def)
  have reg': "reg' = AList.update key (Map_set pid r ?m) reg"
    using assms k by (auto simp: register_def Let_def)
  have "snd ` set ?m \<subseteq> set (all_records reg)"
    by (cases "map_of reg key") (simp_all add: map_of_records)
  then have "snd ` set (Map_set pid r ?m) \<subseteq> insert r (set (all_records reg))"
    using Map_set_subset[of pid r ?m] by fastforce
  then show "set (all_records reg') \<subseteq> insert r (set (all_records reg))"
    unfolding reg' using all_records_update[of key "Map_set pid r ?m" reg] by blast
  show "\<exists>key. rv_roomKey ns rm = Some key \<and> stored_at reg' key pid r"
    using k unfolding reg' by (simp add: stored_at_def update_conv' Map_set_mem)
qed

lemma register_defined:
  "rv_roomKey ns rm = Some key \<Longrightarrow> \<exists>r reg'. register now ns rm pid addrs ttl meta reg = Some (r, reg')"
  by (simp add: register_def Let_def)

lemma post_register_ok:
  assumes "well_formed_post sha256hex cfg tok body_in body key"
      and "js_Number s2n (js_or (js_prop body ''ttlMs'') (JNum (Num 60000))) = Some ttl"
  shows "\<exists>r reg. post_rendezvous_register sha256hex s2n cfg now tok body_in st
                    = (st\<lparr> rendezvous := reg \<rparr>, [HttpReply (Reply200 r)])
          \<and> seenAt r = now \<and> expiresAt r = js_add (Num now) ttl
          \<and> stored_at reg key (js_prop body ''peerId'') r"
proof -
  let ?ns = "js_or (js_prop body ''namespace'') (JStr ''global'')"
  let ?rm = "js_or (js_prop body ''room'') (JStr ''public'')"
  have k: "rv_roomKey ?ns ?rm = Some key" using assms(1) by (simp add: well_formed_post_def)
  obtain r reg where reg: "register now ?ns ?rm (js_prop body ''peerId'')
        (js_or (js_prop body ''addresses'') (JArr [])) ttl
        (js_or (js_prop body ''metadata'') (JObj [])) (rendezvous st) = Some (r, reg)"
    using register_defined[OF k] by blast
  have "post_rendezvous_register sha256hex s2n cfg now tok body_in st
                    = (st\<lparr> rendezvous := reg \<rparr>, [HttpReply (Reply200 r)])"
    using assms reg by (simp add: post_rendezvous_register_def well_formed_post_def)
  moreover have "seenAt r = now" "expiresAt r = js_add (Num now) ttl"
    using register_result(1)[OF reg] by simp_all
  moreover have "stored_at reg key (js_prop body ''peerId'') r"
    using register_result(3)[OF reg] k by simp
  ultimately show ?thesis by blast
qed

text \<open>
  Claim C10. An authorised \<^verbatim>\<open>POST /rendezvous/register\<close> whose body carries a falsy
  \<^verbatim>\<open>ttlMs\<close> (absent, \<^verbatim>\<open>null\<close>, \<^verbatim>\<open>false\<close>, \<open>0\<close> or the empty string) stores a record that
  expires 60000 ms after it was seen: the supplied value is not used, so a \<^verbatim>\<open>ttlMs\<close>
  of \<open>0\<close> does not expire the record at once. A \<^verbatim>\<open>ttlMs\<close> that is a number other than
  zero, negative ones included, is the time-to-live of the stored record; a number
  supplied as \<^verbatim>\<open>ttlMs\<close> is the time-to-live passed to the registry exactly when it is not
  zero, and whatever time-to-live is passed is added to the time of the request.
\<close>

theorem falsy_ttlMs_defaults_to_60000:
  "well_formed_post sha256hex cfg tok body_in body key \<longrightarrow>
     (\<not> truthy (js_prop body ''ttlMs'') \<longrightarrow>
        (\<exists>r reg. post_rendezvous_register sha256hex s2n cfg now tok body_in st
                    = (st\<lparr> rendezvous := reg \<rparr>, [HttpReply (Reply200 r)])
          \<and> seenAt r = now \<and> expiresAt r = Num (now + 60000)
          \<and> stored_at reg key (js_prop body ''peerId'') r))
   \<and> (\<forall>n. js_prop body ''ttlMs'' = JNum n \<and> truthy (JNum n) \<longrightarrow>
        (\<exists>r reg. post_rendezvous_register sha256hex s2n cfg now tok body_in st
                    = (st\<lparr> rendezvous := reg \<rparr>, [HttpReply (Reply200 r)])
          \<and> seenAt r = now \<and> expiresAt r = js_add (Num now) n
          \<and> stored_at reg key (js_prop body ''peerId'') r))
   \<and> (\<forall>n. js_prop body ''ttlMs'' = JNum n \<longrightarrow>
        (post_ttl s2n body_in = Some n \<longleftrightarrow> truthy (JNum n)))
   \<and> (\<forall>ttl. post_ttl s2n body_in = Some ttl \<longrightarrow>
        (\<exists>r reg. post_rendezvous_register sha256hex s2n cfg now tok body_in st
                    = (st\<lparr> rendezvous := reg \<rparr>, [HttpReply (Reply200 r)])
          \<and> seenAt r = now \<and> expiresAt r = js_add (Num now) ttl
          \<and> stored_at reg key (js_prop body ''peerId'') r))"
proof (intro impI conjI allI)
  fix n
  assume wf: "well_formed_post sha256hex cfg tok body_in body key"
     and t: "js_prop body ''ttlMs'' = JNum n"
  have "post_ttl s2n body_in = (if truthy (JNum n) then Some n else Some (Num 60000))"
    using wf t by (simp add: post_ttl_def well_formed_post_def js_or_def)
  then show "post_ttl s2n body_in = Some n \<longleftrightarrow> truthy (JNum n)"
    by auto
next
  fix ttl
  assume wf: "well_formed_post sha256hex cfg tok body_in body key"
     and t: "post_ttl s2n body_in = Some ttl"
  have "js_Number s2n (js_or (js_prop body ''ttlMs'') (JNum (Num 60000))) = Some ttl"
    using wf t by (simp add: post_ttl_def well_formed_post_def)
  from post_register_ok[OF wf this, of now st]
  show "\<exists>r reg. post_rendezvous_register sha256hex s2n cfg now tok body_in st
                    = (st\<lparr> rendezvous := reg \<rparr>, [HttpReply (Reply200 r)])
          \<and> seenAt r = now \<and> expiresAt r = js_add (Num now) ttl
          \<and> stored_at reg key (js_prop body ''peerId'') r"
    by simp
next
  assume wf: "well_formed_post sha256hex cfg tok body_in body key"
     and f: "\<not> truthy (js_prop body ''ttlMs'')"
  have "js_Number s2n (js_or (js_prop body ''ttlMs'') (JNum (Num 60000))) = Some (Num 60000)"
    using f by (simp add: js_or_def)
  from post_register_ok[OF wf this, of now st]
  show "\<exists>r reg. post_rendezvous_register sha256hex s2n cfg now tok body_in st
                    = (st\<lparr> rendezvous := reg \<rparr>, [HttpReply (Reply200 r)])
          \<and> seenAt r = now \<and> expiresAt r = Num (now + 60000)
          \<and> stored_at reg key (js_prop body ''peerId'') r"
    by simp
next
  fix n
  assume wf: "well_formed_post sha256hex cfg tok body_in body key"
     and t: "js_prop body ''ttlMs'' = JNum n \<and> truthy (JNum n)"
  have "js_Number s2n (js_or (js_prop body ''ttlMs'') (JNum (Num 60000))) = Some n"
    using t by (simp add: js_or_def)
  from post_register_ok[OF wf this, of now st]
  show "\<exists>r reg. post_rendezvous_register sha256hex s2n cfg now tok body_in st
                    = (st\<lparr> rendezvous := reg \<rparr>, [HttpReply (Reply200 r)])
          \<and> seenAt r = now \<and> expiresAt r = js_add (Num now) n
          \<and> stored_at reg key (js_prop body ''peerId'') r"
    by simp
qed

theorem falsy_ttlMs_defaults_to_60000_witness:
  "well_formed_post (\<lambda>s. s) scenario_cfg [] (BodyJson zero_ttl_body) zero_ttl_body ''n::r''
   \<and> \<not> truthy (js_prop zero_ttl_body ''ttlMs'')
   \<and> (\<exists>r reg. post_rendezvous_register (\<lambda>s. s) (\<lambda>s. NaN) scenario_cfg 100 [] (BodyJson zero_ttl_body) init_server
                    = (init_server\<lparr> rendezvous := reg \<rparr>, [HttpReply (Reply200 r)])
          \<and> seenAt r = 100 \<and> expiresAt r = Num 60100
          \<and> stored_at reg ''n::r'' (JStr ''p'') r)
   \<and> well_formed_post (\<lambda>s. s) scenario_cfg [] (BodyJson negative_ttl_body) negative_ttl_body ''n::r''
   \<and> js_prop negative_ttl_body ''ttlMs'' = JNum (Num (- 5))
   \<and> (\<exists>r reg. post_rendezvous_register (\<lambda>s. s) (\<lambda>s. NaN) scenario_cfg 100 [] (BodyJson negative_ttl_body) init_server
                    = (init_server\<lparr> rendezvous := reg \<rparr>, [HttpReply (Reply200 r)])
          \<and> seenAt r = 100 \<and> expiresAt r = Num 95
          \<and> stored_at reg ''n::r'' (JStr ''p'') r)
   \<and> post_ttl (\<lambda>s. NaN) (BodyJson zero_ttl_body) \<noteq> Some (Num 0)
   \<and> post_ttl (\<lambda>s. NaN) (BodyJson negative_ttl_body) = Some (Num (- 5))"
proof -
  note zero = falsy_ttlMs_defaults_to_60000[of "\<lambda>s. s" scenario_cfg "[]" "BodyJson zero_ttl_body"
            zero_ttl_body "''n::r''" "\<lambda>s. NaN" 100 init_server]
  note neg = falsy_ttlMs_defaults_to_60000[of "\<lambda>s. s" scenario_cfg "[]" "BodyJson negative_ttl_body"
            negative_ttl_body "''n::r''" "\<lambda>s. NaN" 100 init_server]
  have a: "well_formed_post (\<lambda>s. s) scenario_cfg [] (BodyJson zero_ttl_body) zero_ttl_body ''n::r''"
    by code_simp
  have b: "\<not> truthy (js_prop zero_ttl_body ''ttlMs'')" by (simp add: zero_ttl_body_def)
  have p: "js_prop zero_ttl_body ''peerId'' = JStr ''p''" by (simp add: zero_ttl_body_def)
  have c: "\<exists>r reg. post_rendezvous_register (\<lambda>s. s) (\<lambda>s. NaN) scenario_cfg 100 [] (BodyJson zero_ttl_body) init_server
                    = (init_server\<lparr> rendezvous := reg \<rparr>, [HttpReply (Reply200 r)])
          \<and> seenAt r = 100 \<and> expiresAt r = Num 60100
          \<and> stored_at reg ''n::r'' (JStr ''p'') r"
    using zero a b unfolding p by simp
  have d: "well_formed_post (\<lambda>s. s) scenario_cfg [] (BodyJson negative_ttl_body) negative_ttl_body ''n::r''"
    by code_simp
  have e: "js_prop negative_ttl_body ''ttlMs'' = JNum (Num (- 5))" by (simp add: negative_ttl_body_def)
  have q: "js_prop negative_ttl_body ''peerId'' = JStr ''p''" by (simp add: negative_ttl_body_def)
  have f: "\<exists>r reg. post_rendezvous_register (\<lambda>s. s) (\<lambda>s. NaN) scenario_cfg 100 [] (BodyJson negative_ttl_body) init_server
                    = (init_server\<lparr> rendezvous := reg \<rparr>, [HttpReply (Reply200 r)])
          \<and> seenAt r = 100 \<and> expiresAt r = Num 95
          \<and> stored_at reg ''n::r'' (JStr ''p'') r"
    using neg d e unfolding q by simp
  have z: "js_prop zero_ttl_body ''ttlMs'' = JNum (Num 0)" by (simp add: zero_ttl_body_def)
  have g: "post_ttl (\<lambda>s. NaN) (BodyJson zero_ttl_body) \<noteq> Some (Num 0)"
    using zero a z by simp
  have h: "post_ttl (\<lambda>s. NaN) (BodyJson negative_ttl_body) = Some (Num (- 5))"
    using neg d e by simp
  show ?thesis by (intro conjI) (rule a, rule b, rule c, rule d, rule e, rule f, rule g, rule h)
qed


lemma prune_room_subset: "set (prune_room t m) \<subseteq> set m"
  by (auto simp: prune_room_filter)


lemma discover_registry: "snd (discover now ns rm limit reg) = pruneExpired now reg"
  by (auto simp: discover_def Let_def split: option.splits)




lemma on_connection_rendezvous:
  "\<exists>r reg. register now (JStr ns) (JStr rm) (JStr pid) (JArr [JStr ip]) (Num 60000)
              (JObj [(''transport'', JStr ''websocket'')]) (rendezvous st) = Some (r, reg)
           \<and> rendezvous (fst (on_connection now isoNow ns rm ip pid st)) = reg"
proof -
  have k: "rv_roomKey (JStr ns) (JStr rm) = Some (ns @ ''::'' @ rm)" by (simp add: rv_roomKey_def js_template_def)
  obtain r reg where reg: "register now (JStr ns) (JStr rm) (JStr pid) (JArr [JStr ip]) (Num 60000)
              (JObj [(''transport'', JStr ''websocket'')]) (rendezvous st) = Some (r, reg)"
    using register_defined[OF k] by blast
  then show ?thesis
    by (auto simp: on_connection_def ensureRoom_def Let_def split: option.splits prod.splits)
qed



lemma on_message_rendezvous:
  "rendezvous (fst (on_message cfg now isoNow ws w parsed st)) = rendezvous st"
  using allowMessage_frame(3)[of cfg now "ws_clientIp w" st]
  by (auto simp: on_message_def Let_def split_beta split: option.splits)

lemma decrementConnection_frame:
  "rendezvous (decrementConnection ip st) = rendezvous st"
  "rooms (decrementConnection ip st) = rooms st"
  "sockets (decrementConnection ip st) = sockets st"
  "metrics (decrementConnection ip st) = metrics st"
  by (auto simp: decrementConnection_def Let_def)

lemma on_close_rendezvous:
  "rendezvous (fst (on_close ws w st)) =
     (case removePeer (JStr (ws_namespace w)) (JStr (ws_room w)) (JStr (ws_peerId w)) (rendezvous st) of
        None \<Rightarrow> rendezvous st | Some (b, reg) \<Rightarrow> reg)"
  by (auto simp: on_close_def Let_def decrementConnection_frame split: option.splits prod.splits)


lemma set_readyState_frame:
  "rendezvous (set_readyState ws rs st) = rendezvous st"
  "rooms (set_readyState ws rs st) = rooms st"
  "metrics (set_readyState ws rs st) = metrics st"
  "connectionsByIp (set_readyState ws rs st) = connectionsByIp st"
  by (auto simp: set_readyState_def split: option.splits)







section \<open>Register, discover and remove\<close>

subsection \<open>The representation invariant\<close>

lemma filter_prim_keys: "filter (\<lambda>k. \<not> compound k) (map fst m) = map fst (filter (\<lambda>(k, x). \<not> compound k) m)"
  by (induction m) auto

lemma wf_room_Nil: "wf_room []"
  by (simp add: wf_room_def)

lemma wf_room_Cons:
  "wf_room ((k, x) # m) \<longleftrightarrow>
     peerId x = k \<and> wf_room m \<and> (\<not> compound k \<longrightarrow> k \<notin> fst ` set m)"
  by (auto simp: wf_room_def)

lemma wf_room_filter: "wf_room m \<Longrightarrow> wf_room (filter P m)"
  by (induction m) (auto simp: wf_room_Cons wf_room_Nil)

lemma wf_room_append1:
  "wf_room m \<Longrightarrow> peerId r = p \<Longrightarrow> compound p \<or> p \<notin> fst ` set m \<Longrightarrow> wf_room (m @ [(p, r)])"
  by (induction m) (auto simp: wf_room_Cons wf_room_Nil)

lemma filter_key_absent: "p \<notin> fst ` set m \<Longrightarrow> filter (\<lambda>(k, x). k = p) m = []"
  by (induction m) auto

lemma wf_room_update:
  assumes "wf_room m" "\<not> compound p" "peerId r = p"
  shows "wf_room (AList.update p r m) \<and> filter (\<lambda>(k, x). k = p) (AList.update p r m) = [(p, r)]"
  using assms
proof (induction m)
  case Nil
  then show ?case by (simp add: wf_room_Cons wf_room_Nil)
next
  case (Cons a m)
  obtain k x where a: "a = (k, x)" by (cases a)
  show ?case
  proof (cases "k = p")
    case True
    then show ?thesis using Cons.prems a by (auto simp: wf_room_Cons filter_key_absent)
  next
    case False
    then show ?thesis using Cons a by (auto simp: wf_room_Cons dom_update)
  qed
qed

lemma wf_room_Map_set:
  "wf_room m \<Longrightarrow> peerId r = p \<Longrightarrow> wf_room (Map_set p r m)"
  using wf_room_update[of m p r] wf_room_append1[of m r p] by (auto simp: Map_set_def)

lemma Map_set_entries:
  "wf_room m \<Longrightarrow> \<not> compound p \<Longrightarrow> peerId r = p \<Longrightarrow>
     filter (\<lambda>(k, x). k = p) (Map_set p r m) = [(p, r)]"
  using wf_room_update[of m p r] by (simp add: Map_set_def)

lemma wf_room_entries_le1:
  "wf_room m \<Longrightarrow> \<not> compound p \<Longrightarrow> length (filter (\<lambda>(k, x). k = p) m) \<le> 1"
  by (induction m) (auto simp: wf_room_Cons filter_key_absent)

lemma wf_room_entries_eq:
  "wf_room m \<Longrightarrow> \<not> compound p \<Longrightarrow> (p, r) \<in> set m \<Longrightarrow> filter (\<lambda>(k, x). k = p) m = [(p, r)]"
proof (induction m)
  case Nil then show ?case by simp
next
  case (Cons a m)
  obtain k x where a: "a = (k, x)" by (cases a)
  show ?case
  proof (cases "k = p")
    case True
    then have "p \<notin> fst ` set m" using Cons.prems a by (simp add: wf_room_Cons)
    then show ?thesis using Cons.prems a True by (force simp: filter_key_absent)
  next
    case False
    then show ?thesis using Cons a by (auto simp: wf_room_Cons)
  qed
qed

lemma wf_room_records:
  "wf_room m \<Longrightarrow> filter (\<lambda>x. peerId x = p) (map snd m) = map snd (filter (\<lambda>(k, x). k = p) m)"
  by (induction m) (auto simp: wf_room_Cons)

lemma wf_room_delete: "wf_room m \<Longrightarrow> wf_room (AList.delete p m)"
  by (simp add: AList.delete_eq wf_room_filter)

lemma wf_room_prune: "wf_room m \<Longrightarrow> wf_room (prune_room t m)"
  by (simp add: prune_room_filter wf_room_filter)

lemma wf_registry_room: "wf_registry reg \<Longrightarrow> map_of reg key = Some m \<Longrightarrow> wf_room m"
  by (auto simp: wf_registry_def dest: map_of_SomeD)

lemma wf_registry_update:
  "wf_registry reg \<Longrightarrow> wf_room m \<Longrightarrow> wf_registry (AList.update key m reg)"
  using set_update_subset[of key m reg]
  by (auto simp: wf_registry_def distinct_update)

lemma wf_registry_delete: "wf_registry reg \<Longrightarrow> wf_registry (AList.delete key reg)"
  using set_delete_subset[of key reg]
  by (auto simp: wf_registry_def distinct_delete)

lemma map_of_pruneExpired:
  "distinct (map fst reg) \<Longrightarrow>
     map_of (pruneExpired t reg) key =
       (case map_of reg key of
          None \<Rightarrow> None
        | Some m \<Rightarrow> if prune_room t m = [] then None else Some (prune_room t m))"
proof (induction reg)
  case Nil then show ?case by simp
next
  case (Cons a reg)
  obtain k m where a: "a = (k, m)" by (cases a)
  have "k \<notin> fst ` set reg" using Cons.prems a by simp
  then have n: "map_of reg k = None" by (simp add: map_of_eq_None_iff)
  show ?case using Cons a n by (auto simp: Let_def)
qed

lemma wf_registry_prune: "wf_registry reg \<Longrightarrow> wf_registry (pruneExpired t reg)"
  by (auto simp: wf_registry_def pruneExpired_filter distinct_map_filter wf_room_prune
           filter_map comp_def split_def distinct_map inj_on_def)

subsection \<open>Discover, register and remove in one room\<close>

lemma js_slice0_Nil: "js_slice0 lim [] = []"
  by (cases lim) auto

lemma js_slice0_take: "\<exists>n. js_slice0 lim xs = take n xs"
proof (cases lim)
  case NaN then show ?thesis by (auto intro: exI[of _ 0])
next
  case NegInf then show ?thesis by (auto intro: exI[of _ 0])
next
  case (Num n) then show ?thesis by auto
next
  case PosInf then show ?thesis by (auto intro: exI[of _ "length xs"])
qed

lemma filter_take_length: "length (filter P (take n xs)) \<le> length (filter P xs)"
proof -
  have "length (filter P xs) = length (filter P (take n xs @ drop n xs))" by simp
  also have "\<dots> = length (filter P (take n xs)) + length (filter P (drop n xs))"
    by (simp only: filter_append length_append)
  finally show ?thesis by simp
qed

lemma js_slice0_filter_le: "length (filter P (js_slice0 lim xs)) \<le> length (filter P xs)"
  using js_slice0_take[of lim xs] filter_take_length[of P _ xs] by auto

lemma js_slice0_subset: "set (js_slice0 lim xs) \<subseteq> set xs"
  using js_slice0_take[of lim xs] set_take_subset by fastforce

text \<open>What \<^verbatim>\<open>discover\<close> returns for a room key that exists.\<close>

lemma discover_result:
  assumes "wf_registry reg" "rv_roomKey ns rm = Some key"
  shows "fst (discover t ns rm limit reg) =
           Some (js_slice0 (case limit of None \<Rightarrow> Num 32 | Some l \<Rightarrow> l)
                   (sort_key (\<lambda>r. - seenAt r)
                      (map snd (case map_of reg key of None \<Rightarrow> [] | Some m \<Rightarrow> prune_room t m))))"
proof -
  have d: "distinct (map fst reg)" using assms(1) by (simp add: wf_registry_def)
  show ?thesis
    using assms(2) map_of_pruneExpired[OF d, of t key]
    by (auto simp: discover_def Let_def js_slice0_Nil split: option.splits)
qed

lemma js_slice0_kept:
  "js_slice0 (case limit of None \<Rightarrow> Num 32 | Some l \<Rightarrow> l) xs = take (kept limit (length xs)) xs"
  unfolding kept_def
  by (cases "case limit of None \<Rightarrow> Num 32 | Some l \<Rightarrow> l") (auto simp: min_def)

lemma kept_values:
  "kept (Some PosInf) n = n" "kept None n = min 32 n"
  by (auto simp: kept_def)

lemma sorted_partition:
  "sorted (map f ys) \<Longrightarrow>
     ys = filter (\<lambda>x. f x < c) ys @ filter (\<lambda>x. f x = c) ys @ filter (\<lambda>x. c < f x) ys"
  for f :: "'a \<Rightarrow> int"
proof (induction ys)
  case Nil then show ?case by simp
next
  case (Cons y ys)
  have le: "\<forall>z \<in> set ys. f y \<le> f z" using Cons.prems by simp
  have ih: "ys = filter (\<lambda>x. f x < c) ys @ filter (\<lambda>x. f x = c) ys @ filter (\<lambda>x. c < f x) ys"
    using Cons by simp
  consider "f y < c" | "f y = c" | "c < f y" by linarith
  then show ?case
  proof cases
    case 1
    then show ?thesis using ih by simp
  next
    case 2
    then have "filter (\<lambda>x. f x < c) ys = []" using le by (auto simp: filter_empty_conv)
    then show ?thesis using 2 ih by simp
  next
    case 3
    then have "filter (\<lambda>x. f x < c) ys = []" "filter (\<lambda>x. f x = c) ys = []"
      using le by (auto simp: filter_empty_conv)
    then show ?thesis using 3 ih by simp
  qed
qed

lemma filter_filter_empty: "filter P xs = [] \<Longrightarrow> filter P (filter Q xs) = []"
  by (induction xs) (auto split: if_splits)

lemma single_split:
  assumes "filter P xs = [r]"
  shows "takeWhile (\<lambda>x. \<not> P x) xs @ r # tl (dropWhile (\<lambda>x. \<not> P x) xs) = xs"
    and "filter P (tl (dropWhile (\<lambda>x. \<not> P x) xs)) = []"
proof -
  define T where "T = takeWhile (\<lambda>x. \<not> P x) xs"
  define D where "D = dropWhile (\<lambda>x. \<not> P x) xs"
  have TD: "T @ D = xs" by (simp add: T_def D_def)
  have ft: "filter P T = []"
    by (auto simp: T_def filter_empty_conv dest: set_takeWhileD)
  have "filter P (T @ D) = [r]" using assms by (simp only: TD)
  then have fd: "filter P D = [r]" using ft by simp
  have ne: "D \<noteq> []"
  proof
    assume "D = []"
    then show False using fd by simp
  qed
  then obtain d ds where d: "D = d # ds" by (cases D) auto
  have "P d" using hd_dropWhile[of "\<lambda>x. \<not> P x" xs] ne d by (simp add: D_def)
  then have "d = r" "filter P ds = []" using fd d by simp_all
  then have "T @ r # tl D = xs" "filter P (tl D) = []" using TD d by simp_all
  then show "takeWhile (\<lambda>x. \<not> P x) xs @ r # tl (dropWhile (\<lambda>x. \<not> P x) xs) = xs"
    and "filter P (tl (dropWhile (\<lambda>x. \<not> P x) xs)) = []"
    by (simp_all only: T_def D_def)
qed

lemma sorted_position:
  fixes xs :: "rv_record list"
  assumes one: "filter (\<lambda>x. peerId x = p) xs = [r]"
  shows "\<exists>L R. sort_key (\<lambda>x. - seenAt x) xs = L @ r # R \<and> length L = ranked_before xs r \<and>
               filter (\<lambda>x. peerId x = p) L = [] \<and> filter (\<lambda>x. peerId x = p) R = []"
proof -
  let ?f = "\<lambda>x::rv_record. - seenAt x"
  let ?ys = "sort_key ?f xs"
  let ?c = "?f r"
  have "r \<in> set (filter (\<lambda>x. peerId x = p) xs)" using one by simp
  then have pr: "peerId r = p" and rin: "r \<in> set xs" by simp_all
  have only: "\<And>x. x \<in> set xs \<Longrightarrow> peerId x = p \<Longrightarrow> x = r"
  proof -
    fix x assume "x \<in> set xs" "peerId x = p"
    then have "x \<in> set (filter (\<lambda>x. peerId x = p) xs)" by simp
    then show "x = r" using one by simp
  qed
  let ?T = "takeWhile (\<lambda>x. \<not> peerId x = p) xs"
  let ?D = "tl (dropWhile (\<lambda>x. \<not> peerId x = p) xs)"
  have xs: "?T @ r # ?D = xs" and noD: "filter (\<lambda>x. peerId x = p) ?D = []"
    using single_split[OF one] by simp_all
  have noT: "filter (\<lambda>x. peerId x = p) ?T = []"
    by (auto simp: filter_empty_conv dest: set_takeWhileD)
  define A where "A = filter (\<lambda>x. ?f x < ?c) ?ys"
  define E where "E = filter (\<lambda>x. ?f x = ?c) ?ys"
  define B where "B = filter (\<lambda>x. ?c < ?f x) ?ys"
  have part: "?ys = A @ E @ B"
    unfolding A_def E_def B_def by (rule sorted_partition) (rule sorted_sort_key)
  have "E = filter (\<lambda>x. ?f x = ?c) xs"
    unfolding E_def by (rule sort_key_stable)
  also have "\<dots> = filter (\<lambda>x. ?f x = ?c) (?T @ r # ?D)"
    by (simp only: xs)
  also have "\<dots> = filter (\<lambda>x. ?f x = ?c) ?T @ r # filter (\<lambda>x. ?f x = ?c) ?D"
    by simp
  finally have E: "E = filter (\<lambda>x. ?f x = ?c) ?T @ r # filter (\<lambda>x. ?f x = ?c) ?D" .
  let ?L = "A @ filter (\<lambda>x. ?f x = ?c) ?T"
  let ?R = "filter (\<lambda>x. ?f x = ?c) ?D @ B"
  have ys: "?ys = ?L @ r # ?R"
    by (simp only: part E append_assoc append_Cons)
  have "length A = length (filter (\<lambda>x. ?f x < ?c) xs)"
    by (simp add: A_def filter_sort)
  then have len: "length ?L = ranked_before xs r"
    by (simp add: ranked_before_def pr)
  have nl: "filter (\<lambda>x. peerId x = p) A = []"
  proof -
    have "\<forall>x \<in> set A. peerId x \<noteq> p"
    proof
      fix x assume "x \<in> set A"
      then have x: "x \<in> set xs" "?f x < ?c" by (simp_all add: A_def)
      show "peerId x \<noteq> p"
      proof
        assume "peerId x = p"
        from only[OF x(1) this] x(2) show False by simp
      qed
    qed
    then show ?thesis by (simp add: filter_empty_conv)
  qed
  have nr: "filter (\<lambda>x. peerId x = p) B = []"
  proof -
    have "\<forall>x \<in> set B. peerId x \<noteq> p"
    proof
      fix x assume "x \<in> set B"
      then have x: "x \<in> set xs" "?c < ?f x" by (simp_all add: B_def)
      show "peerId x \<noteq> p"
      proof
        assume "peerId x = p"
        from only[OF x(1) this] x(2) show False by simp
      qed
    qed
    then show ?thesis by (simp add: filter_empty_conv)
  qed
  have nT: "filter (\<lambda>x. peerId x = p) (filter (\<lambda>x. ?f x = ?c) ?T) = []"
    using noT by (rule filter_filter_empty)
  have nD: "filter (\<lambda>x. peerId x = p) (filter (\<lambda>x. ?f x = ?c) ?D) = []"
    using noD by (rule filter_filter_empty)
  have "filter (\<lambda>x. peerId x = p) ?L = []" using nl nT by simp
  moreover have "filter (\<lambda>x. peerId x = p) ?R = []" using nr nD by simp
  ultimately show ?thesis using ys len by blast
qed

lemma filter_take_empty: "filter P xs = [] \<Longrightarrow> filter P (take n xs) = []"
proof -
  assume "filter P xs = []"
  then have "\<forall>x \<in> set xs. \<not> P x" by (simp only: filter_empty_conv)
  moreover have "set (take n xs) \<subseteq> set xs" by (rule set_take_subset)
  ultimately have "\<forall>x \<in> set (take n xs). \<not> P x" by blast
  then show ?thesis by (simp only: filter_empty_conv)
qed

lemma filter_take_single:
  assumes "filter P L = []" "filter P R = []" "P r"
  shows "filter P (take n (L @ r # R)) = (if length L < n then [r] else [])"
proof (cases "length L < n")
  case True
  then have "take n (L @ r # R) = L @ r # take (n - Suc (length L)) R"
    by (simp add: take_Cons')
  then have "filter P (take n (L @ r # R)) = filter P L @ filter P [r] @ filter P (take (n - Suc (length L)) R)"
    by simp
  also have "\<dots> = [r]"
    by (simp only: assms(1) filter_take_empty[OF assms(2)]) (simp add: assms(3))
  finally show ?thesis using True by simp
next
  case False
  then have "take n (L @ r # R) = take n L" by simp
  then have "filter P (take n (L @ r # R)) = []"
    by (simp only: filter_take_empty[OF assms(1)])
  then show ?thesis using False by simp
qed

lemma ranked_before_less:
  assumes "filter (\<lambda>x. peerId x = p) xs = [r]"
  shows "ranked_before xs r < length xs"
proof -
  obtain L R where "sort_key (\<lambda>x. - seenAt x) xs = L @ r # R" "length L = ranked_before xs r"
    using sorted_position[OF assms] by blast
  then have "length (sort_key (\<lambda>x. - seenAt x) xs) = ranked_before xs r + Suc (length R)"
    by simp
  then show ?thesis by simp
qed

lemma discover_ranked:
  assumes wf: "wf_registry reg" and key: "rv_roomKey ns rm = Some key" and p: "\<not> compound p"
      and st: "stored_at reg key p r" and live: "\<not> js_le (expiresAt r) (Num t)"
  shows "\<exists>rs. fst (discover t ns rm limit reg) = Some rs \<and>
           filter (\<lambda>x. peerId x = p) rs =
             (if ranked_before (live_records reg key t) r < kept limit (length (live_records reg key t))
              then [r] else [])"
    and "ranked_before (live_records reg key t) r < length (live_records reg key t)"
proof -
  obtain m where m: "map_of reg key = Some m" "(p, r) \<in> set m"
    using st by (auto simp: stored_at_def split: option.splits)
  have wm: "wf_room m" using wf_registry_room[OF wf m(1)] .
  let ?m' = "prune_room t m"
  let ?xs = "map snd ?m'"
  have lr: "live_records reg key t = ?xs"
    using m(1) by (simp add: live_records_def prune_room_filter)
  have in': "(p, r) \<in> set ?m'" using m(2) live by (simp add: prune_room_filter)
  have wm': "wf_room ?m'" using wm by (rule wf_room_prune)
  have one: "filter (\<lambda>x. peerId x = p) ?xs = [r]"
    by (simp add: wf_room_records[OF wm'] wf_room_entries_eq[OF wm' p in'])
  then have "r \<in> set (filter (\<lambda>x. peerId x = p) ?xs)" by simp
  then have pr: "peerId r = p" by simp
  obtain L R where pos: "sort_key (\<lambda>x. - seenAt x) ?xs = L @ r # R"
      "length L = ranked_before ?xs r"
      "filter (\<lambda>x. peerId x = p) L = []" "filter (\<lambda>x. peerId x = p) R = []"
    using sorted_position[OF one] by blast
  define K where "K = kept limit (length ?xs)"
  have "fst (discover t ns rm limit reg) =
      Some (js_slice0 (case limit of None \<Rightarrow> Num 32 | Some l \<Rightarrow> l) (sort_key (\<lambda>x. - seenAt x) ?xs))"
    using discover_result[OF wf key, of t limit] by (simp only: m(1) option.case)
  also have "js_slice0 (case limit of None \<Rightarrow> Num 32 | Some l \<Rightarrow> l) (sort_key (\<lambda>x. - seenAt x) ?xs)
      = take K (sort_key (\<lambda>x. - seenAt x) ?xs)"
    unfolding K_def by (simp only: js_slice0_kept length_sort)
  finally have res: "fst (discover t ns rm limit reg) = Some (take K (L @ r # R))"
    by (simp only: pos(1))
  have f: "filter (\<lambda>x. peerId x = p) (take K (L @ r # R)) = (if length L < K then [r] else [])"
    by (rule filter_take_single[OF pos(3,4)]) (rule pr)
  have "filter (\<lambda>x. peerId x = p) (take K (L @ r # R)) =
          (if ranked_before (live_records reg key t) r < kept limit (length (live_records reg key t))
           then [r] else [])"
    unfolding f by (simp only: pos(2) lr K_def)
  with res show "\<exists>rs. fst (discover t ns rm limit reg) = Some rs \<and>
           filter (\<lambda>x. peerId x = p) rs =
             (if ranked_before (live_records reg key t) r < kept limit (length (live_records reg key t))
              then [r] else [])"
    by blast
  show "ranked_before (live_records reg key t) r < length (live_records reg key t)"
    unfolding lr by (rule ranked_before_less[OF one])
qed


lemma kept_Num: "0 \<le> l \<Longrightarrow> kept (Some (Num l)) n = min (nat l) n"
  by (simp add: kept_def)

lemma discover_at_most_once:
  assumes wf: "wf_registry reg" and key: "rv_roomKey ns rm = Some key" and p: "\<not> compound p"
      and res: "fst (discover t ns rm limit reg) = Some rs"
  shows "length (filter (\<lambda>x. peerId x = p) rs) \<le> 1"
proof -
  let ?m' = "case map_of reg key of None \<Rightarrow> [] | Some m \<Rightarrow> prune_room t m"
  have wm': "wf_room ?m'"
    using wf_registry_room[OF wf] wf_room_prune by (auto simp: wf_room_Nil split: option.splits)
  let ?all = "sort_key (\<lambda>r. - seenAt r) (map snd ?m')"
  have rs: "rs = js_slice0 (case limit of None \<Rightarrow> Num 32 | Some l \<Rightarrow> l) ?all"
    using discover_result[OF wf key, of t limit] res by simp
  have "length (filter (\<lambda>x. peerId x = p) ?all) = length (filter (\<lambda>x. peerId x = p) (map snd ?m'))"
    by (simp add: filter_sort)
  also have "\<dots> = length (filter (\<lambda>(k, x). k = p) ?m')"
    by (simp add: wf_room_records[OF wm'])
  also have "\<dots> \<le> 1" by (rule wf_room_entries_le1[OF wm' p])
  finally have "length (filter (\<lambda>x. peerId x = p) ?all) \<le> 1" .
  moreover have "length (filter (\<lambda>x. peerId x = p) rs) \<le> length (filter (\<lambda>x. peerId x = p) ?all)"
    unfolding rs by (rule js_slice0_filter_le)
  ultimately show ?thesis by linarith
qed

lemma discover_absent:
  assumes wf: "wf_registry reg" and key: "rv_roomKey ns rm = Some key"
      and none: "records_of reg key p = []"
      and res: "fst (discover t ns rm limit reg) = Some rs"
  shows "p \<notin> peerId ` set rs"
proof -
  let ?m' = "case map_of reg key of None \<Rightarrow> [] | Some m \<Rightarrow> prune_room t m"
  have wm': "wf_room ?m'"
    using wf_registry_room[OF wf] wf_room_prune by (auto simp: wf_room_Nil split: option.splits)
  have "filter (\<lambda>(k, x). k = p) ?m' = []"
    using none by (auto simp: records_of_def prune_room_filter filter_empty_conv split: option.splits)
  then have "filter (\<lambda>x. peerId x = p) (map snd ?m') = []"
    by (simp add: wf_room_records[OF wm'])
  then have "\<forall>x \<in> set (map snd ?m'). peerId x \<noteq> p"
    by (simp only: filter_empty_conv)
  then have "p \<notin> peerId ` set (map snd ?m')"
    by blast
  moreover have "set rs \<subseteq> set (map snd ?m')"
    using discover_result[OF wf key, of t limit] res js_slice0_subset by fastforce
  ultimately show ?thesis by blast
qed

lemma register_wf:
  assumes "wf_registry reg" "register now ns rm p addrs ttl meta reg = Some (r, reg')"
  shows "wf_registry reg'"
proof -
  obtain key where k: "rv_roomKey ns rm = Some key"
    using assms(2) by (auto simp: register_def split: option.splits)
  let ?m = "case map_of reg key of None \<Rightarrow> [] | Some m \<Rightarrow> m"
  have r: "peerId r = p" using register_result(1)[OF assms(2)] by simp
  have reg': "reg' = AList.update key (Map_set p r ?m) reg"
    using assms(2) k by (auto simp: register_def Let_def)
  have "wf_room ?m" using wf_registry_room[OF assms(1)] by (auto simp: wf_room_Nil split: option.splits)
  then have "wf_room (Map_set p r ?m)" using r by (rule wf_room_Map_set)
  then show ?thesis unfolding reg' using assms(1) by (rule wf_registry_update[rotated])
qed

lemma register_single:
  assumes "wf_registry reg" "rv_roomKey ns rm = Some key" "\<not> compound p"
      and "register now ns rm p addrs ttl meta reg = Some (r, reg')"
  shows "records_of reg' key p = [r]" and "stored_at reg' key p r" and "seenAt r = now"
proof -
  let ?m = "case map_of reg key of None \<Rightarrow> [] | Some m \<Rightarrow> m"
  have r: "peerId r = p" "seenAt r = now" using register_result(1)[OF assms(4)] by simp_all
  have reg': "reg' = AList.update key (Map_set p r ?m) reg"
    using assms(4,2) by (auto simp: register_def Let_def)
  have wm: "wf_room ?m" using wf_registry_room[OF assms(1)] by (auto simp: wf_room_Nil split: option.splits)
  show "records_of reg' key p = [r]"
    unfolding reg' by (simp add: records_of_def update_conv' Map_set_entries[OF wm assms(3) r(1)])
  show "stored_at reg' key p r"
    using register_result(3)[OF assms(4)] assms(2) by simp
  show "seenAt r = now" by (rule r(2))
qed

lemma removePeer_effect:
  assumes wf: "wf_registry reg" and key: "rv_roomKey ns rm = Some key" and p: "\<not> compound p"
  shows "\<exists>b reg'. removePeer ns rm p reg = Some (b, reg') \<and> (b \<longleftrightarrow> (\<exists>r. stored_at reg key p r))
            \<and> wf_registry reg' \<and> records_of reg' key p = []"
proof (cases "map_of reg key")
  case None
  then show ?thesis using key wf
    by (intro exI[of _ False] exI[of _ reg]) (simp add: removePeer_def stored_at_def records_of_def)
next
  case (Some m)
  have wm: "wf_room m" using wf_registry_room[OF wf Some] .
  let ?m' = "AList.delete p m"
  let ?b = "map_of m p \<noteq> None"
  let ?reg' = "if length ?m' = 0 then AList.delete key reg else AList.update key ?m' reg"
  have rp: "removePeer ns rm p reg = Some (?b, ?reg')"
    using key Some p by (simp add: removePeer_def Map_delete_def)
  have b: "?b \<longleftrightarrow> (\<exists>r. stored_at reg key p r)"
    using Some by (force simp: stored_at_def map_of_eq_None_iff)
  have w: "wf_registry ?reg'"
    using wf wm by (simp add: wf_registry_delete wf_registry_update wf_room_delete)
  have "filter (\<lambda>(k, x). k = p) ?m' = []"
    by (auto simp: AList.delete_eq filter_empty_conv)
  then have n: "records_of ?reg' key p = []"
    by (auto simp: records_of_def update_conv' delete_conv')
  show ?thesis using rp b w n by blast
qed

subsection \<open>The invariant holds in every reachable state\<close>

lemma removePeer_wf:
  assumes "wf_registry reg" "removePeer ns rm p reg = Some (b, reg')"
  shows "wf_registry reg'"
proof -
  obtain key where k: "rv_roomKey ns rm = Some key"
    using assms(2) by (auto simp: removePeer_def split: option.splits)
  show ?thesis
  proof (cases "map_of reg key")
    case None
    then show ?thesis using assms k by (simp add: removePeer_def)
  next
    case (Some m)
    have wm: "wf_room (snd (Map_delete p m))"
      using wf_registry_room[OF assms(1) Some] by (simp add: Map_delete_def wf_room_delete)
    have "reg' = AList.delete key reg \<or> reg' = AList.update key (snd (Map_delete p m)) reg"
      using assms(2) k Some by (auto simp: removePeer_def Let_def split: prod.splits if_splits)
    then show ?thesis using assms(1) wm wf_registry_delete wf_registry_update by blast
  qed
qed

lemma step_wf_registry:
  assumes "wf_registry (rendezvous st)"
  shows "wf_registry (rendezvous (fst (step sha256hex s2n cfg ev st)))"
proof (cases ev)
  case (Upgrade req now isoNow)
  show ?thesis
  proof (cases "admitted sha256hex cfg req st")
    case True
    let ?st1 = "snd (allowConnection cfg (clientIp req) st)"
    have w1: "wf_registry (rendezvous ?st1)" using assms by (simp add: allowConnection_frame)
    obtain r reg where reg: "register now (JStr (param_or (q_namespace req) ''global''))
          (JStr (param_or (q_room req) ''public''))
          (JStr (param_or (q_peerId req) (generated_peerId req))) (JArr [JStr (clientIp req)]) (Num 60000)
              (JObj [(''transport'', JStr ''websocket'')]) (rendezvous ?st1) = Some (r, reg)"
      and eq: "rendezvous (fst (on_connection now isoNow (param_or (q_namespace req) ''global'')
                 (param_or (q_room req) ''public'') (clientIp req)
                 (param_or (q_peerId req) (generated_peerId req)) ?st1)) = reg"
      using on_connection_rendezvous by blast
    show ?thesis using Upgrade register_wf[OF w1 reg] eq by (simp add: on_upgrade_admitted[OF True])
  next
    case False
    then have "rendezvous (fst (on_upgrade sha256hex cfg now isoNow req st)) = rendezvous st"
      using allowConnection_frame(4)[of cfg "clientIp req" st]
      by (auto simp: on_upgrade_def admitted_def Let_def split: prod.splits)
    then show ?thesis using assms Upgrade by simp
  qed
next
  case (Message ws parsed now isoNow)
  then show ?thesis using assms by (auto simp: on_message_rendezvous split: option.splits)
next
  case (Closing ws)
  then show ?thesis using assms by (auto simp: set_readyState_frame split: option.splits)
next
  case (Close ws)
  have "\<And>w st'. wf_registry (rendezvous st') \<Longrightarrow> wf_registry (rendezvous (fst (on_close ws w st')))"
    unfolding on_close_rendezvous using removePeer_wf by (auto split: option.splits)
  then show ?thesis using Close assms by (auto simp: set_readyState_frame split: option.splits)
next
  case (PostRegister tok body_in now)
  have "rendezvous (fst (post_rendezvous_register sha256hex s2n cfg now tok body_in st)) = rendezvous st
        \<or> (\<exists>ns rm pid addrs ttl meta r reg.
              register now ns rm pid addrs ttl meta (rendezvous st) = Some (r, reg) \<and>
              rendezvous (fst (post_rendezvous_register sha256hex s2n cfg now tok body_in st)) = reg)"
    by (auto simp: post_rendezvous_register_def split: option.splits)
  then show ?thesis using PostRegister assms register_wf by auto
next
  case (GetDiscover q_ns q_rm q_limit now)
  then show ?thesis
    using wf_registry_prune[OF assms, of now] discover_registry
    by (auto simp: get_rendezvous_discover_def Let_def split_beta)
next
  case (PruneTick now)
  then show ?thesis using wf_registry_prune[OF assms, of now] by simp
qed

lemma run_wf_registry:
  "wf_registry (rendezvous st) \<Longrightarrow> wf_registry (rendezvous (run sha256hex s2n cfg evs st))"
  by (induction evs arbitrary: st) (auto simp: step_wf_registry)

lemma reachable_wf_registry: "wf_registry (rendezvous (run sha256hex s2n cfg evs init_server))"
  by (rule run_wf_registry) (simp add: init_server_def wf_registry_def)

subsection \<open>The round trip\<close>

text \<open>
  Claim C8, as the code has it. In a registry that satisfies the representation invariant
  (every reachable one does), for a namespace and room with a key and a primitive peer
  id \<open>p\<close>: \<^verbatim>\<open>register\<close> leaves exactly one record for \<open>p\<close> in the room, the one of this call
  with its \<^verbatim>\<open>seenAt\<close>, whatever was registered before. While a record of \<open>p\<close> is stored and
  unexpired, \<^verbatim>\<open>discover\<close> returns a list in which \<open>p\<close> appears exactly once when fewer
  unexpired records of the room rank before the record of \<open>p\<close> than \<^verbatim>\<open>slice(0, limit)\<close>
  keeps, and a list without \<open>p\<close> otherwise: so always with an infinite limit, and with the
  default limit exactly when fewer than 32 rank before it. With any limit \<open>p\<close> appears at
  most once. \<^verbatim>\<open>removePeer\<close> returns true exactly when a record of \<open>p\<close> was stored, and
  after it no \<^verbatim>\<open>discover\<close> returns \<open>p\<close>.
\<close>

theorem register_discover_remove:
  "peer_setting reg ns rm key p \<longrightarrow>
     (\<forall>now addrs ttl meta r reg1.
        register now ns rm p addrs ttl meta reg = Some (r, reg1) \<longrightarrow>
          peer_setting reg1 ns rm key p \<and> stored_at reg1 key p r \<and>
          records_of reg1 key p = [r] \<and> seenAt r = now)
   \<and> (\<forall>r t.
        stored_at reg key p r \<and> \<not> js_le (expiresAt r) (Num t) \<longrightarrow>
          (\<forall>limit. \<exists>rs. fst (discover t ns rm limit reg) = Some rs \<and>
             filter (\<lambda>x. peerId x = p) rs =
               (if ranked_before (live_records reg key t) r
                     < kept limit (length (live_records reg key t))
                then [r] else []))
          \<and> (\<exists>rs. fst (discover t ns rm (Some PosInf) reg) = Some rs \<and>
                 filter (\<lambda>x. peerId x = p) rs = [r])
          \<and> (\<exists>rs. fst (discover t ns rm None reg) = Some rs \<and>
                 filter (\<lambda>x. peerId x = p) rs =
                   (if ranked_before (live_records reg key t) r < 32 then [r] else [])))
   \<and> (\<forall>t limit rs.
        fst (discover t ns rm limit reg) = Some rs \<longrightarrow> length (filter (\<lambda>x. peerId x = p) rs) \<le> 1)
   \<and> (\<exists>b reg'.
        removePeer ns rm p reg = Some (b, reg') \<and> (b \<longleftrightarrow> (\<exists>r. stored_at reg key p r)) \<and>
        peer_setting reg' ns rm key p \<and>
        (\<forall>t limit rs. fst (discover t ns rm limit reg') = Some rs \<longrightarrow> p \<notin> peerId ` set rs))
   \<and> (\<forall>n l. kept (Some PosInf) n = n \<and> kept None n = min 32 n \<and>
          (0 \<le> l \<longrightarrow> kept (Some (Num l)) n = min (nat l) n))"
proof
  assume ps: "peer_setting reg ns rm key p"
  then have wf: "wf_registry reg" and key: "rv_roomKey ns rm = Some key" and p: "\<not> compound p"
    by (simp_all add: peer_setting_def)
  have one: "\<forall>now addrs ttl meta r reg1.
        register now ns rm p addrs ttl meta reg = Some (r, reg1) \<longrightarrow>
          peer_setting reg1 ns rm key p \<and> stored_at reg1 key p r \<and>
          records_of reg1 key p = [r] \<and> seenAt r = now"
    using register_wf[OF wf] register_single[OF wf key p] key p
    by (auto simp: peer_setting_def)
  have two: "\<forall>r t.
        stored_at reg key p r \<and> \<not> js_le (expiresAt r) (Num t) \<longrightarrow>
          (\<forall>limit. \<exists>rs. fst (discover t ns rm limit reg) = Some rs \<and>
             filter (\<lambda>x. peerId x = p) rs =
               (if ranked_before (live_records reg key t) r
                     < kept limit (length (live_records reg key t))
                then [r] else []))
          \<and> (\<exists>rs. fst (discover t ns rm (Some PosInf) reg) = Some rs \<and>
                 filter (\<lambda>x. peerId x = p) rs = [r])
          \<and> (\<exists>rs. fst (discover t ns rm None reg) = Some rs \<and>
                 filter (\<lambda>x. peerId x = p) rs =
                   (if ranked_before (live_records reg key t) r < 32 then [r] else []))"
  proof (intro allI impI)
    fix r t
    assume h: "stored_at reg key p r \<and> \<not> js_le (expiresAt r) (Num t)"
    then have st: "stored_at reg key p r" and live: "\<not> js_le (expiresAt r) (Num t)" by simp_all
    note rk = discover_ranked[OF wf key p st live]
    define n where "n = length (live_records reg key t)"
    define k where "k = ranked_before (live_records reg key t) r"
    have kn: "k < n" unfolding k_def n_def by (rule rk(2))
    have a: "\<forall>limit. \<exists>rs. fst (discover t ns rm limit reg) = Some rs \<and>
             filter (\<lambda>x. peerId x = p) rs = (if k < kept limit n then [r] else [])"
      unfolding k_def n_def using rk(1) by blast
    have b: "\<exists>rs. fst (discover t ns rm (Some PosInf) reg) = Some rs \<and>
                 filter (\<lambda>x. peerId x = p) rs = [r]"
      using a[rule_format, of "Some PosInf"] kn by (simp add: kept_values)
    have "k < kept None n \<longleftrightarrow> k < 32" using kn by (simp add: kept_values)
    then have c: "\<exists>rs. fst (discover t ns rm None reg) = Some rs \<and>
                 filter (\<lambda>x. peerId x = p) rs = (if k < 32 then [r] else [])"
      using a[rule_format, of None] by simp
    show "(\<forall>limit. \<exists>rs. fst (discover t ns rm limit reg) = Some rs \<and>
             filter (\<lambda>x. peerId x = p) rs =
               (if ranked_before (live_records reg key t) r
                     < kept limit (length (live_records reg key t))
                then [r] else []))
          \<and> (\<exists>rs. fst (discover t ns rm (Some PosInf) reg) = Some rs \<and>
                 filter (\<lambda>x. peerId x = p) rs = [r])
          \<and> (\<exists>rs. fst (discover t ns rm None reg) = Some rs \<and>
                 filter (\<lambda>x. peerId x = p) rs =
                   (if ranked_before (live_records reg key t) r < 32 then [r] else []))"
      using a b c unfolding k_def n_def by blast
  qed
  have three: "\<forall>t limit rs.
        fst (discover t ns rm limit reg) = Some rs \<longrightarrow> length (filter (\<lambda>x. peerId x = p) rs) \<le> 1"
    using discover_at_most_once[OF wf key p] by blast
  obtain b reg' where rp: "removePeer ns rm p reg = Some (b, reg')"
      "b \<longleftrightarrow> (\<exists>r. stored_at reg key p r)" "wf_registry reg'" "records_of reg' key p = []"
    using removePeer_effect[OF wf key p] by blast
  have "\<forall>t limit rs. fst (discover t ns rm limit reg') = Some rs \<longrightarrow> p \<notin> peerId ` set rs"
    using discover_absent[OF rp(3) key rp(4)] by blast
  then have four: "\<exists>b reg'.
        removePeer ns rm p reg = Some (b, reg') \<and> (b \<longleftrightarrow> (\<exists>r. stored_at reg key p r)) \<and>
        peer_setting reg' ns rm key p \<and>
        (\<forall>t limit rs. fst (discover t ns rm limit reg') = Some rs \<longrightarrow> p \<notin> peerId ` set rs)"
    using rp key p by (auto simp: peer_setting_def)
  have five: "\<forall>n l. kept (Some PosInf) n = n \<and> kept None n = min 32 n \<and>
          (0 \<le> l \<longrightarrow> kept (Some (Num l)) n = min (nat l) n)"
    by (simp add: kept_values kept_Num)
  show "(\<forall>now addrs ttl meta r reg1.
        register now ns rm p addrs ttl meta reg = Some (r, reg1) \<longrightarrow>
          peer_setting reg1 ns rm key p \<and> stored_at reg1 key p r \<and>
          records_of reg1 key p = [r] \<and> seenAt r = now)
   \<and> (\<forall>r t.
        stored_at reg key p r \<and> \<not> js_le (expiresAt r) (Num t) \<longrightarrow>
          (\<forall>limit. \<exists>rs. fst (discover t ns rm limit reg) = Some rs \<and>
             filter (\<lambda>x. peerId x = p) rs =
               (if ranked_before (live_records reg key t) r
                     < kept limit (length (live_records reg key t))
                then [r] else []))
          \<and> (\<exists>rs. fst (discover t ns rm (Some PosInf) reg) = Some rs \<and>
                 filter (\<lambda>x. peerId x = p) rs = [r])
          \<and> (\<exists>rs. fst (discover t ns rm None reg) = Some rs \<and>
                 filter (\<lambda>x. peerId x = p) rs =
                   (if ranked_before (live_records reg key t) r < 32 then [r] else [])))
   \<and> (\<forall>t limit rs.
        fst (discover t ns rm limit reg) = Some rs \<longrightarrow> length (filter (\<lambda>x. peerId x = p) rs) \<le> 1)
   \<and> (\<exists>b reg'.
        removePeer ns rm p reg = Some (b, reg') \<and> (b \<longleftrightarrow> (\<exists>r. stored_at reg key p r)) \<and>
        peer_setting reg' ns rm key p \<and>
        (\<forall>t limit rs. fst (discover t ns rm limit reg') = Some rs \<longrightarrow> p \<notin> peerId ` set rs))
   \<and> (\<forall>n l. kept (Some PosInf) n = n \<and> kept None n = min 32 n \<and>
          (0 \<le> l \<longrightarrow> kept (Some (Num l)) n = min (nat l) n))"
    using one two three four five by blast
qed

theorem register_discover_remove_witness:
  "peer_setting pair_room (JStr ''n'') (JStr ''r'') ''n::r'' (JStr ''p'')
   \<and> stored_at pair_room ''n::r'' (JStr ''p'') second_record
   \<and> live_records pair_room ''n::r'' 20 = [second_record, other_record]
   \<and> ranked_before [second_record, other_record] second_record = 0
   \<and> (\<exists>rs. fst (discover 20 (JStr ''n'') (JStr ''r'') (Some PosInf) pair_room) = Some rs
            \<and> filter (\<lambda>x. peerId x = JStr ''p'') rs = [second_record])
   \<and> (\<exists>rs. fst (discover 20 (JStr ''n'') (JStr ''r'') None pair_room) = Some rs
            \<and> filter (\<lambda>x. peerId x = JStr ''p'') rs = [second_record])
   \<and> (\<exists>rs. fst (discover 20 (JStr ''n'') (JStr ''r'') (Some (Num 1)) pair_room) = Some rs
            \<and> filter (\<lambda>x. peerId x = JStr ''p'') rs = [second_record])
   \<and> peer_setting pair_room (JStr ''n'') (JStr ''r'') ''n::r'' (JStr ''q'')
   \<and> stored_at pair_room ''n::r'' (JStr ''q'') other_record
   \<and> ranked_before [second_record, other_record] other_record = 1
   \<and> (\<exists>rs. fst (discover 20 (JStr ''n'') (JStr ''r'') (Some (Num 1)) pair_room) = Some rs
            \<and> filter (\<lambda>x. peerId x = JStr ''q'') rs = [])
   \<and> (\<exists>reg'. removePeer (JStr ''n'') (JStr ''r'') (JStr ''p'') pair_room = Some (True, reg'))
   \<and> peer_setting pair_before (JStr ''n'') (JStr ''r'') ''n::r'' (JStr ''p'')
   \<and> register 10 (JStr ''n'') (JStr ''r'') (JStr ''p'') (JArr []) (Num 60000) (JObj []) pair_before
       = Some (second_record, pair_room)
   \<and> records_of pair_room ''n::r'' (JStr ''p'') = [second_record]
   \<and> fst (discover 20 (JStr ''n'') (JStr ''r'') (Some (Num 1)) pair_room) = Some [second_record]
   \<and> length (filter (\<lambda>x. peerId x = JStr ''p'') [second_record]) \<le> 1
   \<and> removePeer (JStr ''n'') (JStr ''r'') (JStr ''p'') pair_room
       = Some (True, [(''n::r'', [(JStr ''q'', other_record)])])
   \<and> fst (discover 20 (JStr ''n'') (JStr ''r'') None [(''n::r'', [(JStr ''q'', other_record)])])
       = Some [other_record]
   \<and> JStr ''p'' \<notin> peerId ` set [other_record]"
proof -
  note inst = register_discover_remove[of pair_room "JStr ''n''" "JStr ''r''" "''n::r''" "JStr ''p''"]
  note instq = register_discover_remove[of pair_room "JStr ''n''" "JStr ''r''" "''n::r''" "JStr ''q''"]
  note before = register_discover_remove[of pair_before "JStr ''n''" "JStr ''r''" "''n::r''" "JStr ''p''"]
  have a: "peer_setting pair_room (JStr ''n'') (JStr ''r'') ''n::r'' (JStr ''p'')"
    unfolding peer_setting_def by code_simp
  have b: "stored_at pair_room ''n::r'' (JStr ''p'') second_record" by code_simp
  have lr: "live_records pair_room ''n::r'' 20 = [second_record, other_record]" by code_simp
  have r0: "ranked_before [second_record, other_record] second_record = 0" by code_simp
  have r1: "ranked_before [second_record, other_record] other_record = 1" by code_simp
  have l: "\<not> js_le (expiresAt second_record) (Num 20)" by (simp add: second_record_def)
  have lq: "\<not> js_le (expiresAt other_record) (Num 20)" by (simp add: other_record_def)
  have k1: "kept (Some (Num 1)) (length [second_record, other_record]) = 1"
    using inst a by simp
  from inst a b l have two:
    "\<forall>limit. \<exists>rs. fst (discover 20 (JStr ''n'') (JStr ''r'') limit pair_room) = Some rs \<and>
        filter (\<lambda>x. peerId x = JStr ''p'') rs =
          (if ranked_before (live_records pair_room ''n::r'' 20) second_record
                < kept limit (length (live_records pair_room ''n::r'' 20))
           then [second_record] else [])"
    "\<exists>rs. fst (discover 20 (JStr ''n'') (JStr ''r'') (Some PosInf) pair_room) = Some rs
            \<and> filter (\<lambda>x. peerId x = JStr ''p'') rs = [second_record]"
    "\<exists>rs. fst (discover 20 (JStr ''n'') (JStr ''r'') None pair_room) = Some rs \<and>
        filter (\<lambda>x. peerId x = JStr ''p'') rs =
          (if ranked_before (live_records pair_room ''n::r'' 20) second_record < 32
           then [second_record] else [])"
    by blast+
  have d: "\<exists>rs. fst (discover 20 (JStr ''n'') (JStr ''r'') (Some PosInf) pair_room) = Some rs
            \<and> filter (\<lambda>x. peerId x = JStr ''p'') rs = [second_record]"
    by (rule two(2))
  have e: "\<exists>rs. fst (discover 20 (JStr ''n'') (JStr ''r'') None pair_room) = Some rs
            \<and> filter (\<lambda>x. peerId x = JStr ''p'') rs = [second_record]"
    using two(3) unfolding lr r0 by simp
  have e1: "\<exists>rs. fst (discover 20 (JStr ''n'') (JStr ''r'') (Some (Num 1)) pair_room) = Some rs
            \<and> filter (\<lambda>x. peerId x = JStr ''p'') rs = [second_record]"
    using two(1)[rule_format, of "Some (Num 1)"] unfolding lr r0 k1 by simp
  have aq: "peer_setting pair_room (JStr ''n'') (JStr ''r'') ''n::r'' (JStr ''q'')"
    unfolding peer_setting_def by code_simp
  have bq: "stored_at pair_room ''n::r'' (JStr ''q'') other_record" by code_simp
  from instq aq bq lq have twoq:
    "\<forall>limit. \<exists>rs. fst (discover 20 (JStr ''n'') (JStr ''r'') limit pair_room) = Some rs \<and>
        filter (\<lambda>x. peerId x = JStr ''q'') rs =
          (if ranked_before (live_records pair_room ''n::r'' 20) other_record
                < kept limit (length (live_records pair_room ''n::r'' 20))
           then [other_record] else [])"
    by blast
  have eq: "\<exists>rs. fst (discover 20 (JStr ''n'') (JStr ''r'') (Some (Num 1)) pair_room) = Some rs
            \<and> filter (\<lambda>x. peerId x = JStr ''q'') rs = []"
    using twoq[rule_format, of "Some (Num 1)"] unfolding lr r1 k1 by simp
  from inst a obtain flag reg' where
      rp: "removePeer (JStr ''n'') (JStr ''r'') (JStr ''p'') pair_room = Some (flag, reg')"
          "flag \<longleftrightarrow> (\<exists>r. stored_at pair_room ''n::r'' (JStr ''p'') r)"
          "\<forall>t limit rs. fst (discover t (JStr ''n'') (JStr ''r'') limit reg') = Some rs
              \<longrightarrow> JStr ''p'' \<notin> peerId ` set rs"
    by blast
  have fl: "flag = True" using rp(2) b by blast
  have f: "\<exists>reg'. removePeer (JStr ''n'') (JStr ''r'') (JStr ''p'') pair_room = Some (True, reg')"
    using rp(1) fl by simp
  have g: "peer_setting pair_before (JStr ''n'') (JStr ''r'') ''n::r'' (JStr ''p'')"
    unfolding peer_setting_def by code_simp
  have h: "register 10 (JStr ''n'') (JStr ''r'') (JStr ''p'') (JArr []) (Num 60000) (JObj []) pair_before
       = Some (second_record, pair_room)"
    by code_simp
  have i: "records_of pair_room ''n::r'' (JStr ''p'') = [second_record]"
    using before g h by blast
  have j: "fst (discover 20 (JStr ''n'') (JStr ''r'') (Some (Num 1)) pair_room) = Some [second_record]"
    by code_simp
  have k: "length (filter (\<lambda>x. peerId x = JStr ''p'') [second_record]) \<le> 1"
    using inst a j by blast
  have m: "removePeer (JStr ''n'') (JStr ''r'') (JStr ''p'') pair_room
       = Some (True, [(''n::r'', [(JStr ''q'', other_record)])])"
    by code_simp
  have r': "reg' = [(''n::r'', [(JStr ''q'', other_record)])]"
    using rp(1) m by simp
  have n: "fst (discover 20 (JStr ''n'') (JStr ''r'') None [(''n::r'', [(JStr ''q'', other_record)])])
       = Some [other_record]"
    by code_simp
  have o: "JStr ''p'' \<notin> peerId ` set [other_record]"
    using rp(3) n unfolding r' by blast
  show ?thesis
    by (intro conjI) (rule a, rule b, rule lr, rule r0, rule d, rule e, rule e1, rule aq, rule bq,
        rule r1, rule eq, rule f, rule g, rule h, rule i, rule j, rule k, rule m, rule n, rule o)
qed

text \<open>
  Claim C8 as stated fails for \<^verbatim>\<open>discover\<close> with its default limit: peer \<open>p\<close> registers at
  time 0 with a time-to-live of 60 s, 32 more peers register in the room during the next
  32 ms, and \<^verbatim>\<open>discover\<close> at time 100 returns those 32, newest first, without \<open>p\<close>.
\<close>

theorem default_limit_hides_peer:
  "stored_at crowded_room ''n::r'' (JStr ''p'') first_record
   \<and> \<not> js_le (expiresAt first_record) (Num 100)
   \<and> map_option (map peerId) (fst (discover 100 (JStr ''n'') (JStr ''r'') None crowded_room))
       = Some (rev later_ids)
   \<and> JStr ''p'' \<notin> set (rev later_ids)"
  by code_simp

section \<open>Room members, the active gauge and the connection counters\<close>

lemma sum_update:
  "sum_list (map (\<lambda>(k, v). g v) (AList.update k v al)) =
     sum_list (map (\<lambda>(k, v). g v) al) + g v - (case map_of al k of None \<Rightarrow> 0 | Some v0 \<Rightarrow> (g v0 :: int))"
  by (induction al) auto

lemma sum_delete:
  "distinct (map fst al) \<Longrightarrow>
   sum_list (map (\<lambda>(k, v). g v) (AList.delete k al)) =
     sum_list (map (\<lambda>(k, v). g v) al) - (case map_of al k of None \<Rightarrow> 0 | Some v0 \<Rightarrow> (g v0 :: int))"
proof (induction al)
  case Nil then show ?case by simp
next
  case (Cons a al)
  obtain k' v' where a: "a = (k', v')" by (cases a)
  show ?case
  proof (cases "k' = k")
    case True
    then have "k \<notin> fst ` set al" using Cons.prems a by simp
    then have "AList.delete k al = al" by (induction al) auto
    then show ?thesis using a True by simp
  next
    case False
    then show ?thesis using Cons a by simp
  qed
qed

lemma count_update:
  "distinct (map fst al) \<Longrightarrow> map_of al k = Some v0 \<Longrightarrow>
   int (length (filter P (AList.update k v al))) =
     int (length (filter P al)) - (if P (k, v0) then 1 else 0) + (if P (k, v) then 1 else 0)"
proof (induction al)
  case Nil then show ?case by simp
next
  case (Cons a al)
  obtain k' v' where a: "a = (k', v')" by (cases a)
  show ?case
  proof (cases "k' = k")
    case True
    then show ?thesis using Cons.prems a by auto
  next
    case False
    then show ?thesis using Cons a by auto
  qed
qed

lemma members_total_update:
  "members_total (st\<lparr> rooms := AList.update key ms (rooms st) \<rparr>) =
     members_total st + int (length ms) -
       (case map_of (rooms st) key of None \<Rightarrow> 0 | Some ms0 \<Rightarrow> int (length ms0))"
  using sum_update[of "\<lambda>ms. int (length ms)" key ms "rooms st"]
  by (simp add: members_total_def)

lemma members_total_delete:
  "distinct (map fst (rooms st)) \<Longrightarrow>
   members_total (st\<lparr> rooms := AList.delete key (rooms st) \<rparr>) =
     members_total st - (case map_of (rooms st) key of None \<Rightarrow> 0 | Some ms0 \<Rightarrow> int (length ms0))"
  using sum_delete[of "rooms st" "\<lambda>ms. int (length ms)" key]
  by (simp add: members_total_def)

lemma snd_as_case: "snd = (\<lambda>(k, v). v)"
  by auto

lemma buckets_total_update:
  "sum_list (map snd (AList.update ip c conns)) =
     sum_list (map snd conns) + c - (case map_of conns ip of None \<Rightarrow> 0 | Some c0 \<Rightarrow> (c0 :: int))"
  using sum_update[of "\<lambda>c. c" ip c conns] by (simp add: snd_as_case)

lemma buckets_total_delete:
  "distinct (map fst conns) \<Longrightarrow>
   sum_list (map snd (AList.delete ip conns)) =
     sum_list (map snd conns) - (case map_of conns ip of None \<Rightarrow> 0 | Some c0 \<Rightarrow> (c0 :: int))"
  using sum_delete[of conns "\<lambda>c. c" ip] by (simp add: snd_as_case)

lemma hub_inv_cong:
  assumes "sockets st' = sockets st" "rooms st' = rooms st"
      "connectionsByIp st' = connectionsByIp st"
      "wsActiveConnections (metrics st') = wsActiveConnections (metrics st)"
  shows "hub_inv st' = hub_inv st"
  using assms
  by (simp add: hub_inv_def inv_store_def inv_rooms_def inv_member_def inv_bucket_def inv_total_def
        live_total_def live_sessions_def bucket_of_def members_total_def buckets_total_def)

lemma set_update_distinct:
  "distinct (map fst al) \<Longrightarrow> map_of al k = Some v0 \<Longrightarrow>
     set (AList.update k v al) = insert (k, v) (set al - {(k, v0)})"
proof (induction al)
  case Nil then show ?case by simp
next
  case (Cons a al)
  obtain k' v' where a: "a = (k', v')" by (cases a)
  show ?case
  proof (cases "k' = k")
    case True
    then have "k \<notin> fst ` set al" using Cons.prems a by simp
    then have "(k, v0) \<notin> set al" by force
    then show ?thesis using Cons.prems a True by auto
  next
    case False
    then show ?thesis using Cons a by auto
  qed
qed

lemma bucket_nonneg: "inv_bucket st \<Longrightarrow> 0 \<le> bucket_of st ip"
  by (simp add: inv_bucket_def live_sessions_def)

lemma allowConnection_ok:
  assumes "fst (allowConnection cfg ip st)"
  shows "connectionsByIp (snd (allowConnection cfg ip st)) =
           AList.update ip (bucket_of st ip + 1) (connectionsByIp st)"
    and "metrics (snd (allowConnection cfg ip st)) = metrics st"
  using assms by (auto simp: allowConnection_def bucket_of_def Let_def split: if_splits)

lemma allowConnection_rejected:
  assumes "\<not> fst (allowConnection cfg ip st)"
  shows "connectionsByIp (snd (allowConnection cfg ip st)) = connectionsByIp st"
    and "wsActiveConnections (metrics (snd (allowConnection cfg ip st))) = wsActiveConnections (metrics st)"
  using assms by (auto simp: allowConnection_def Let_def split: if_splits)

lemma on_connection_active:
  "wsActiveConnections (metrics (fst (on_connection now isoNow ns rm ip pid st))) =
     wsActiveConnections (metrics st) + 1"
  by (auto simp: on_connection_def ensureRoom_def Let_def split: option.splits prod.splits)

lemma upgrade_admitted_components:
  fixes now :: int and isoNow :: string
  assumes "admitted sha256hex cfg req st"
  defines "st' \<equiv> fst (on_upgrade sha256hex cfg now isoNow req st)"
      and "key \<equiv> roomKey (param_or (q_namespace req) ''global'') (param_or (q_room req) ''public'')"
      and "wnew \<equiv> \<lparr> ws_peerId = param_or (q_peerId req) (generated_peerId req),
                  ws_namespace = param_or (q_namespace req) ''global'',
                  ws_room = param_or (q_room req) ''public'',
                  ws_clientIp = clientIp req, readyState = OPEN \<rparr>"
  shows "sockets st' = sockets st @ [(fresh_ws st, wnew)]"
    and "rooms st' = AList.update key
           (Set_add (fresh_ws st) (case map_of (rooms st) key of None \<Rightarrow> [] | Some ms \<Rightarrow> ms)) (rooms st)"
    and "connectionsByIp st' = AList.update (clientIp req) (bucket_of st (clientIp req) + 1) (connectionsByIp st)"
    and "wsActiveConnections (metrics st') = wsActiveConnections (metrics st) + 1"
proof -
  let ?st1 = "snd (allowConnection cfg (clientIp req) st)"
  have ok: "fst (allowConnection cfg (clientIp req) st)" using assms(1) by (simp add: admitted_def)
  have f: "fresh_ws ?st1 = fresh_ws st"
    by (rule fresh_ws_cong) (simp add: allowConnection_frame)
  show "sockets st' = sockets st @ [(fresh_ws st, wnew)]"
    unfolding st'_def wnew_def on_upgrade_admitted[OF assms(1)]
    by (simp only: on_connection_frame(1) f allowConnection_frame(1))
  show "rooms st' = AList.update key
           (Set_add (fresh_ws st) (case map_of (rooms st) key of None \<Rightarrow> [] | Some ms \<Rightarrow> ms)) (rooms st)"
    unfolding st'_def key_def on_upgrade_admitted[OF assms(1)]
    by (simp only: on_connection_frame(2) f allowConnection_frame(2))
  show "connectionsByIp st' = AList.update (clientIp req) (bucket_of st (clientIp req) + 1) (connectionsByIp st)"
    unfolding st'_def on_upgrade_admitted[OF assms(1)]
    by (simp only: on_connection_frame(3) allowConnection_ok(1)[OF ok])
  show "wsActiveConnections (metrics st') = wsActiveConnections (metrics st) + 1"
    unfolding st'_def on_upgrade_admitted[OF assms(1)]
    by (simp only: on_connection_active allowConnection_ok(2)[OF ok])
qed

lemma upgrade_admitted_inv:
  assumes adm: "admitted sha256hex cfg req st" and inv: "hub_inv st"
  shows "hub_inv (fst (on_upgrade sha256hex cfg now isoNow req st))"
proof -
  define st' where "st' = fst (on_upgrade sha256hex cfg now isoNow req st)"
  define ns where "ns = param_or (q_namespace req) ''global''"
  define rm where "rm = param_or (q_room req) ''public''"
  define key where "key = roomKey ns rm"
  define ip where "ip = clientIp req"
  define f where "f = fresh_ws st"
  define wnew where "wnew = \<lparr> ws_peerId = param_or (q_peerId req) (generated_peerId req),
                  ws_namespace = ns, ws_room = rm, ws_clientIp = ip, readyState = OPEN \<rparr>"
  define ms0 where "ms0 = (case map_of (rooms st) key of None \<Rightarrow> [] | Some ms \<Rightarrow> ms)"
  have socks: "sockets st' = sockets st @ [(f, wnew)]"
    using upgrade_admitted_components(1)[OF adm, of now isoNow]
    by (simp add: st'_def f_def wnew_def ns_def rm_def ip_def)
  have rms: "rooms st' = AList.update key (Set_add f ms0) (rooms st)"
    using upgrade_admitted_components(2)[OF adm, of now isoNow]
    by (simp add: st'_def f_def key_def ns_def rm_def ms0_def)
  have conns: "connectionsByIp st' = AList.update ip (bucket_of st ip + 1) (connectionsByIp st)"
    using upgrade_admitted_components(3)[OF adm, of now isoNow]
    by (simp add: st'_def ip_def)
  have act: "wsActiveConnections (metrics st') = wsActiveConnections (metrics st) + 1"
    using upgrade_admitted_components(4)[OF adm, of now isoNow]
    by (simp add: st'_def)
  have i_store: "inv_store st" and i_rooms: "inv_rooms st" and i_member: "inv_member st"
    and i_bucket: "inv_bucket st" and i_total: "inv_total st"
    using inv by (simp_all add: hub_inv_def)
  have fresh: "f \<notin> fst ` set (sockets st)" unfolding f_def by (rule fresh_ws_notin)
  have ms0_sub: "set ms0 \<subseteq> fst ` set (sockets st)" "distinct ms0"
    using i_rooms by (auto simp: ms0_def inv_rooms_def split: option.splits dest!: map_of_SomeD)
  have f_ms0: "f \<notin> set ms0" using fresh ms0_sub by blast
  have add: "Set_add f ms0 = ms0 @ [f]" using f_ms0 by (simp add: Set_add_def)
  \<comment> \<open>store\<close>
  have 1: "inv_store st'"
    using i_store fresh by (simp add: inv_store_def socks)
  \<comment> \<open>rooms\<close>
  have 2: "inv_rooms st'"
  proof -
    have d: "distinct (map fst (rooms st'))"
      using i_rooms by (simp add: inv_rooms_def rms distinct_update)
    have "\<And>k ms. (k, ms) \<in> set (rooms st') \<Longrightarrow> distinct ms \<and> set ms \<subseteq> fst ` set (sockets st')"
    proof -
      fix k ms assume "(k, ms) \<in> set (rooms st')"
      then have "(k, ms) = (key, Set_add f ms0) \<or> (k, ms) \<in> set (rooms st)"
        using set_update_subset[of key "Set_add f ms0" "rooms st"] by (auto simp: rms)
      then show "distinct ms \<and> set ms \<subseteq> fst ` set (sockets st')"
      proof
        assume "(k, ms) = (key, Set_add f ms0)"
        then show ?thesis using ms0_sub f_ms0 by (auto simp: add socks)
      next
        assume "(k, ms) \<in> set (rooms st)"
        then show ?thesis using i_rooms by (auto simp: inv_rooms_def socks)
      qed
    qed
    then show ?thesis using d by (auto simp: inv_rooms_def)
  qed
  \<comment> \<open>membership\<close>
  have 3: "inv_member st'"
  proof -
    have "\<And>ws w. (ws, w) \<in> set (sockets st') \<Longrightarrow> readyState w \<noteq> CLOSED \<Longrightarrow>
        \<exists>ms. map_of (rooms st') (roomKey (ws_namespace w) (ws_room w)) = Some ms \<and> ws \<in> set ms"
    proof -
      fix ws w assume m: "(ws, w) \<in> set (sockets st')" and l: "readyState w \<noteq> CLOSED"
      from m have "(ws, w) = (f, wnew) \<or> (ws, w) \<in> set (sockets st)" by (auto simp: socks)
      then show "\<exists>ms. map_of (rooms st') (roomKey (ws_namespace w) (ws_room w)) = Some ms \<and> ws \<in> set ms"
      proof
        assume "(ws, w) = (f, wnew)"
        then show ?thesis by (simp add: rms update_conv' wnew_def key_def add)
      next
        assume old: "(ws, w) \<in> set (sockets st)"
        then obtain ms where ms: "map_of (rooms st) (roomKey (ws_namespace w) (ws_room w)) = Some ms" "ws \<in> set ms"
          using i_member l by (fastforce simp: inv_member_def)
        show ?thesis
        proof (cases "roomKey (ws_namespace w) (ws_room w) = key")
          case True
          then have "ms0 = ms" using ms(1) by (simp add: ms0_def)
          then have "ws \<in> set (ms0 @ [f])" using ms(2) by simp
          then have "ws \<in> set (Set_add f ms0)" by (simp only: add)
          then show ?thesis using True by (simp add: rms update_conv')
        next
          case False
          then show ?thesis using ms by (simp add: rms update_conv')
        qed
      qed
    qed
    then show ?thesis by (auto simp: inv_member_def)
  qed
  \<comment> \<open>buckets\<close>
  have live': "\<And>a. live_sessions st' a = live_sessions st a + (if a = ip then 1 else 0)"
    by (simp add: live_sessions_def socks wnew_def)
  have bucket': "\<And>a. bucket_of st' a = (if a = ip then bucket_of st ip + 1 else bucket_of st a)"
    by (simp add: bucket_of_def conns update_conv')
  have 4: "inv_bucket st'"
  proof -
    have d: "distinct (map fst (connectionsByIp st'))"
      using i_bucket by (simp add: inv_bucket_def conns distinct_update)
    have e: "\<forall>a. bucket_of st' a = live_sessions st' a"
      using i_bucket by (simp add: inv_bucket_def live' bucket')
    have "\<And>a c. (a, c) \<in> set (connectionsByIp st') \<Longrightarrow> 0 < c"
    proof -
      fix a c assume "(a, c) \<in> set (connectionsByIp st')"
      then have "(a, c) = (ip, bucket_of st ip + 1) \<or> (a, c) \<in> set (connectionsByIp st)"
        using set_update_subset[of ip "bucket_of st ip + 1" "connectionsByIp st"] by (auto simp: conns)
      then show "0 < c" using bucket_nonneg[OF i_bucket, of ip] i_bucket by (auto simp: inv_bucket_def)
    qed
    then show ?thesis using d e by (auto simp: inv_bucket_def)
  qed
  \<comment> \<open>totals\<close>
  have L: "live_total st' = live_total st + 1"
    by (simp add: live_total_def socks wnew_def)
  have M: "members_total st' = members_total st + 1"
  proof -
    have "members_total st' = members_total (st\<lparr> rooms := AList.update key (Set_add f ms0) (rooms st) \<rparr>)"
      by (simp add: members_total_def rms)
    also have "\<dots> = members_total st + int (length (Set_add f ms0)) -
       (case map_of (rooms st) key of None \<Rightarrow> 0 | Some m \<Rightarrow> int (length m))"
      by (rule members_total_update)
    also have "\<dots> = members_total st + int (length (ms0 @ [f])) - int (length ms0)"
      by (simp only: add) (simp add: ms0_def split: option.splits)
    also have "\<dots> = members_total st + 1"
      by simp
    finally show ?thesis .
  qed
  have B: "buckets_total st' = buckets_total st + 1"
    using buckets_total_update[of ip "bucket_of st ip + 1" "connectionsByIp st"]
    by (simp add: buckets_total_def conns bucket_of_def)
  have 5: "inv_total st'" using i_total L M B act by (simp add: inv_total_def)
  show ?thesis using 1 2 3 4 5 unfolding st'_def hub_inv_def by simp
qed

lemma on_close_components:
  "sockets (fst (on_close ws w st)) = sockets st"
  "rooms (fst (on_close ws w st)) =
     (case map_of (rooms st) (roomKey (ws_namespace w) (ws_room w)) of
        None \<Rightarrow> rooms st
      | Some ms \<Rightarrow>
          if length (Set_delete ws ms) = 0
          then AList.delete (roomKey (ws_namespace w) (ws_room w)) (rooms st)
          else AList.update (roomKey (ws_namespace w) (ws_room w)) (Set_delete ws ms) (rooms st))"
  "connectionsByIp (fst (on_close ws w st)) = connectionsByIp (decrementConnection (ws_clientIp w) st)"
  "wsActiveConnections (metrics (fst (on_close ws w st))) = max 0 (wsActiveConnections (metrics st) - 1)"
  by (auto simp: on_close_def Let_def decrementConnection_def split: option.splits prod.splits)

lemma set_readyState_components:
  assumes "map_of (sockets st) ws = Some w"
  shows "sockets (set_readyState ws rs st) = AList.update ws (w\<lparr> readyState := rs \<rparr>) (sockets st)"
  using assms by (simp add: set_readyState_def)

lemma decrement_positive:
  assumes "map_of (connectionsByIp st) ip = Some c" "1 \<le> c"
  shows "connectionsByIp (decrementConnection ip st) =
           (if c = 1 then AList.delete ip (connectionsByIp st)
            else AList.update ip (c - 1) (connectionsByIp st))"
  using assms by (auto simp: decrementConnection_def Let_def)

lemma close_inv:
  assumes inv: "hub_inv st" and look: "map_of (sockets st) ws = Some w" and live: "readyState w \<noteq> CLOSED"
  shows "hub_inv (fst (on_close ws w (set_readyState ws CLOSED st)))"
proof -
  define st0 where "st0 = set_readyState ws CLOSED st"
  define st' where "st' = fst (on_close ws w st0)"
  define key where "key = roomKey (ws_namespace w) (ws_room w)"
  define ip where "ip = ws_clientIp w"
  define wc where "wc = w\<lparr> readyState := CLOSED \<rparr>"
  have i_store: "inv_store st" and i_rooms: "inv_rooms st" and i_member: "inv_member st"
    and i_bucket: "inv_bucket st" and i_total: "inv_total st"
    using inv by (simp_all add: hub_inv_def)
  have d: "distinct (map fst (sockets st))" using i_store by (simp add: inv_store_def)
  have mem: "(ws, w) \<in> set (sockets st)" using look by (rule map_of_SomeD)
  have socks: "sockets st' = AList.update ws wc (sockets st)"
    by (simp add: st'_def st0_def wc_def on_close_components(1) set_readyState_components[OF look])
  have sset: "set (sockets st') = insert (ws, wc) (set (sockets st) - {(ws, w)})"
    unfolding socks by (rule set_update_distinct[OF d look])
  have skeys: "fst ` set (sockets st') = fst ` set (sockets st)"
  proof -
    have "ws \<in> fst ` set (sockets st)" using mem by force
    then show ?thesis by (auto simp: socks dom_update)
  qed
  obtain ms where ms: "map_of (rooms st) key = Some ms" "ws \<in> set ms"
    using i_member mem live by (fastforce simp: inv_member_def key_def)
  have dms: "distinct ms" "set ms \<subseteq> fst ` set (sockets st)"
    using i_rooms map_of_SomeD[OF ms(1)] by (auto simp: inv_rooms_def)
  define ms' where "ms' = Set_delete ws ms"
  have ms'_set: "set ms' = set ms - {ws}" "distinct ms'"
    using dms(1) by (auto simp: ms'_def Set_delete_def distinct_removeAll)
  have ms'_len: "int (length ms') = int (length ms) - 1"
  proof -
    have "removeAll ws ms = remove1 ws ms" using dms(1) by (simp add: distinct_remove1_removeAll)
    then have "length ms' = length ms - 1" using ms(2) by (simp add: ms'_def Set_delete_def length_remove1)
    moreover have "0 < length ms" using ms(2) by (rule length_pos_if_in_set)
    ultimately show ?thesis by linarith
  qed
  have rms: "rooms st' = (if ms' = [] then AList.delete key (rooms st) else AList.update key ms' (rooms st))"
    using ms(1) by (simp add: st'_def st0_def on_close_components(2) set_readyState_frame key_def ms'_def)
  have d_rooms: "distinct (map fst (rooms st))" using i_rooms by (simp add: inv_rooms_def)
  \<comment> \<open>store\<close>
  have 1: "inv_store st'" using d by (simp add: inv_store_def socks distinct_update)
  \<comment> \<open>rooms\<close>
  have 2: "inv_rooms st'"
  proof -
    have dk: "distinct (map fst (rooms st'))"
      using d_rooms by (simp add: rms distinct_update distinct_delete)
    have "\<And>k m. (k, m) \<in> set (rooms st') \<Longrightarrow> distinct m \<and> set m \<subseteq> fst ` set (sockets st')"
    proof -
      fix k m assume "(k, m) \<in> set (rooms st')"
      then have "(k, m) = (key, ms') \<or> (k, m) \<in> set (rooms st)"
        using set_update_subset[of key ms' "rooms st"] set_delete_subset[of key "rooms st"]
        by (auto simp: rms split: if_splits)
      then show "distinct m \<and> set m \<subseteq> fst ` set (sockets st')"
      proof
        assume "(k, m) = (key, ms')"
        then show ?thesis using ms'_set dms(2) skeys by auto
      next
        assume "(k, m) \<in> set (rooms st)"
        then show ?thesis using i_rooms skeys by (auto simp: inv_rooms_def)
      qed
    qed
    then show ?thesis using dk by (auto simp: inv_rooms_def)
  qed
  \<comment> \<open>membership\<close>
  have 3: "inv_member st'"
  proof -
    have "\<And>ws2 w2. (ws2, w2) \<in> set (sockets st') \<Longrightarrow> readyState w2 \<noteq> CLOSED \<Longrightarrow>
        \<exists>m. map_of (rooms st') (roomKey (ws_namespace w2) (ws_room w2)) = Some m \<and> ws2 \<in> set m"
    proof -
      fix ws2 w2 assume m2: "(ws2, w2) \<in> set (sockets st')" and l2: "readyState w2 \<noteq> CLOSED"
      have "(ws2, w2) \<noteq> (ws, wc)" using l2 by (auto simp: wc_def)
      then have old: "(ws2, w2) \<in> set (sockets st)" "(ws2, w2) \<noteq> (ws, w)" using m2 sset by auto
      have ne: "ws2 \<noteq> ws"
      proof
        assume "ws2 = ws"
        then have "map_of (sockets st) ws = Some w2" using old(1) d by simp
        then show False using look old(2) \<open>ws2 = ws\<close> by simp
      qed
      obtain m where m: "map_of (rooms st) (roomKey (ws_namespace w2) (ws_room w2)) = Some m" "ws2 \<in> set m"
        using i_member old(1) l2 by (fastforce simp: inv_member_def)
      show "\<exists>m. map_of (rooms st') (roomKey (ws_namespace w2) (ws_room w2)) = Some m \<and> ws2 \<in> set m"
      proof (cases "roomKey (ws_namespace w2) (ws_room w2) = key")
        case True
        then have "m = ms" using m(1) ms(1) by simp
        then have in': "ws2 \<in> set ms'" using m(2) ne ms'_set by simp
        then have "ms' \<noteq> []" by auto
        then show ?thesis using True in' by (simp add: rms update_conv')
      next
        case False
        then show ?thesis using m by (simp add: rms update_conv' delete_conv')
      qed
    qed
    then show ?thesis by (auto simp: inv_member_def)
  qed
  \<comment> \<open>buckets\<close>
  have live': "\<And>a. live_sessions st' a = live_sessions st a - (if a = ip then 1 else 0)"
  proof -
    fix a
    show "live_sessions st' a = live_sessions st a - (if a = ip then 1 else 0)"
      using count_update[OF d look, of "\<lambda>(x, y). readyState y \<noteq> CLOSED \<and> ws_clientIp y = a" wc] live
      by (simp add: live_sessions_def socks wc_def ip_def)
  qed
  have pos: "1 \<le> live_sessions st ip"
  proof -
    have "(ws, w) \<in> set (filter (\<lambda>(x, y). readyState y \<noteq> CLOSED \<and> ws_clientIp y = ip) (sockets st))"
      using mem live by (simp add: ip_def)
    then have "0 < length (filter (\<lambda>(x, y). readyState y \<noteq> CLOSED \<and> ws_clientIp y = ip) (sockets st))"
      by (rule length_pos_if_in_set)
    then show ?thesis unfolding live_sessions_def by linarith
  qed
  define c0 where "c0 = bucket_of st ip"
  have c0: "1 \<le> c0" "c0 = live_sessions st ip" using pos i_bucket by (simp_all add: c0_def inv_bucket_def)
  have bk: "map_of (connectionsByIp st) ip = Some c0"
    using c0(1) by (auto simp: c0_def bucket_of_def split: option.splits)
  have conns: "connectionsByIp st' =
           (if c0 = 1 then AList.delete ip (connectionsByIp st)
            else AList.update ip (c0 - 1) (connectionsByIp st))"
  proof -
    have "map_of (connectionsByIp st0) ip = Some c0" using bk by (simp add: st0_def set_readyState_frame)
    from decrement_positive[OF this c0(1)] show ?thesis
      by (simp add: st'_def on_close_components(3) ip_def st0_def set_readyState_frame)
  qed
  have bucket': "\<And>a. bucket_of st' a = (if a = ip then c0 - 1 else bucket_of st a)"
    by (auto simp: bucket_of_def conns update_conv' delete_conv')
  have 4: "inv_bucket st'"
  proof -
    have dk: "distinct (map fst (connectionsByIp st'))"
      using i_bucket by (simp add: inv_bucket_def conns distinct_update distinct_delete)
    have e: "\<forall>a. bucket_of st' a = live_sessions st' a"
      using i_bucket c0(2) by (simp add: inv_bucket_def live' bucket')
    have "\<And>a c. (a, c) \<in> set (connectionsByIp st') \<Longrightarrow> 0 < c"
    proof -
      fix a c assume "(a, c) \<in> set (connectionsByIp st')"
      then have "(c0 \<noteq> 1 \<and> (a, c) = (ip, c0 - 1)) \<or> (a, c) \<in> set (connectionsByIp st)"
        using set_update_subset[of ip "c0 - 1" "connectionsByIp st"] set_delete_subset[of ip "connectionsByIp st"]
        by (auto simp: conns split: if_splits)
      then show "0 < c" using c0(1) i_bucket by (auto simp: inv_bucket_def)
    qed
    then show ?thesis using dk e by (auto simp: inv_bucket_def)
  qed
  \<comment> \<open>totals\<close>
  have L: "live_total st' = live_total st - 1"
    using count_update[OF d look, of "\<lambda>(x, y). readyState y \<noteq> CLOSED" wc] live
    by (simp add: live_total_def socks wc_def)
  have Lpos: "1 \<le> live_total st"
  proof -
    have "(ws, w) \<in> set (filter (\<lambda>(x, y). readyState y \<noteq> CLOSED) (sockets st))"
      using mem live by simp
    then have "0 < length (filter (\<lambda>(x, y). readyState y \<noteq> CLOSED) (sockets st))"
      by (rule length_pos_if_in_set)
    then show ?thesis unfolding live_total_def by linarith
  qed
  have A: "wsActiveConnections (metrics st') = live_total st - 1"
    using i_total Lpos
    by (simp add: st'_def st0_def on_close_components(4) set_readyState_frame inv_total_def)
  have M: "members_total st' = members_total st - 1"
  proof (cases "ms' = []")
    case True
    then have one: "int (length ms) = 1" using ms'_len by simp
    have "members_total st' = members_total (st\<lparr> rooms := AList.delete key (rooms st) \<rparr>)"
      using True by (simp add: members_total_def rms)
    also have "\<dots> = members_total st - int (length ms)"
      using members_total_delete[OF d_rooms, where key=key] ms(1) by simp
    finally show ?thesis using one by simp
  next
    case False
    have "members_total st' = members_total (st\<lparr> rooms := AList.update key ms' (rooms st) \<rparr>)"
      using False by (simp add: members_total_def rms)
    also have "\<dots> = members_total st + int (length ms') - int (length ms)"
      using members_total_update[where st=st and key=key and ms=ms'] ms(1) by simp
    finally show ?thesis using ms'_len by simp
  qed
  have B: "buckets_total st' = buckets_total st - 1"
  proof (cases "c0 = 1")
    case True
    have dk: "distinct (map fst (connectionsByIp st))" using i_bucket by (simp add: inv_bucket_def)
    show ?thesis using True buckets_total_delete[OF dk, of ip] bk by (simp add: buckets_total_def conns)
  next
    case False
    show ?thesis using False buckets_total_update[of ip "c0 - 1" "connectionsByIp st"] bk
      by (simp add: buckets_total_def conns)
  qed
  have 5: "inv_total st'" using i_total L A M B by (simp add: inv_total_def)
  show ?thesis using 1 2 3 4 5 unfolding st'_def st0_def hub_inv_def by simp
qed

lemma closing_inv:
  assumes inv: "hub_inv st" and look: "map_of (sockets st) ws = Some w" and live: "readyState w = OPEN"
  shows "hub_inv (set_readyState ws CLOSING st)"
proof -
  define st' where "st' = set_readyState ws CLOSING st"
  define wc where "wc = w\<lparr> readyState := CLOSING \<rparr>"
  have i_store: "inv_store st" and i_rooms: "inv_rooms st" and i_member: "inv_member st"
    and i_bucket: "inv_bucket st" and i_total: "inv_total st"
    using inv by (simp_all add: hub_inv_def)
  have d: "distinct (map fst (sockets st))" using i_store by (simp add: inv_store_def)
  have mem: "(ws, w) \<in> set (sockets st)" using look by (rule map_of_SomeD)
  have socks: "sockets st' = AList.update ws wc (sockets st)"
    by (simp add: st'_def wc_def set_readyState_components[OF look])
  have fr: "rooms st' = rooms st" "connectionsByIp st' = connectionsByIp st" "metrics st' = metrics st"
    by (simp_all add: st'_def set_readyState_frame)
  have sset: "set (sockets st') = insert (ws, wc) (set (sockets st) - {(ws, w)})"
    unfolding socks by (rule set_update_distinct[OF d look])
  have skeys: "fst ` set (sockets st') = fst ` set (sockets st)"
  proof -
    have "ws \<in> fst ` set (sockets st)" using mem by force
    then show ?thesis by (auto simp: socks dom_update)
  qed
  have 1: "inv_store st'" using d by (simp add: inv_store_def socks distinct_update)
  have 2: "inv_rooms st'" using i_rooms skeys by (simp add: inv_rooms_def fr)
  have 3: "inv_member st'"
  proof -
    have "\<And>ws2 w2. (ws2, w2) \<in> set (sockets st') \<Longrightarrow> readyState w2 \<noteq> CLOSED \<Longrightarrow>
        \<exists>m. map_of (rooms st') (roomKey (ws_namespace w2) (ws_room w2)) = Some m \<and> ws2 \<in> set m"
    proof -
      fix ws2 w2 assume m2: "(ws2, w2) \<in> set (sockets st')" and l2: "readyState w2 \<noteq> CLOSED"
      from m2 sset have "(ws2, w2) = (ws, wc) \<or> (ws2, w2) \<in> set (sockets st)" by auto
      then show "\<exists>m. map_of (rooms st') (roomKey (ws_namespace w2) (ws_room w2)) = Some m \<and> ws2 \<in> set m"
      proof
        assume e: "(ws2, w2) = (ws, wc)"
        have "\<exists>m. map_of (rooms st) (roomKey (ws_namespace w) (ws_room w)) = Some m \<and> ws \<in> set m"
          using i_member mem live by (fastforce simp: inv_member_def)
        then show ?thesis using e by (simp add: fr wc_def)
      next
        assume "(ws2, w2) \<in> set (sockets st)"
        then show ?thesis using i_member l2 by (fastforce simp: inv_member_def fr)
      qed
    qed
    then show ?thesis by (auto simp: inv_member_def)
  qed
  have live': "\<And>a. live_sessions st' a = live_sessions st a"
  proof -
    fix a
    show "live_sessions st' a = live_sessions st a"
      using count_update[OF d look, of "\<lambda>(x, y). readyState y \<noteq> CLOSED \<and> ws_clientIp y = a" wc] live
      by (simp add: live_sessions_def socks wc_def)
  qed
  have 4: "inv_bucket st'" using i_bucket by (simp add: inv_bucket_def bucket_of_def fr live')
  have L: "live_total st' = live_total st"
    using count_update[OF d look, of "\<lambda>(x, y). readyState y \<noteq> CLOSED" wc] live
    by (simp add: live_total_def socks wc_def)
  have 5: "inv_total st'" using i_total by (simp add: inv_total_def L fr members_total_def buckets_total_def)
  show ?thesis using 1 2 3 4 5 unfolding st'_def hub_inv_def by simp
qed

lemma telemetry_active:
  "wsActiveConnections (fst (telemetry message m)) = wsActiveConnections m"
  by (auto simp: telemetry_def Let_def split: option.splits)

lemma allowMessage_active:
  "wsActiveConnections (metrics (snd (allowMessage cfg now ip st))) = wsActiveConnections (metrics st)"
  using open_window_frame(3)[of now ip st]
  by (auto simp: allowMessage_def Let_def split: prod.splits)

lemma on_message_components:
  "sockets (fst (on_message cfg now isoNow ws w parsed st)) = sockets st"
  "rooms (fst (on_message cfg now isoNow ws w parsed st)) = rooms st"
  "connectionsByIp (fst (on_message cfg now isoNow ws w parsed st)) = connectionsByIp st"
  "wsActiveConnections (metrics (fst (on_message cfg now isoNow ws w parsed st))) =
     wsActiveConnections (metrics st)"
  using allowMessage_frame(1,2,5)[of cfg now "ws_clientIp w" st]
        allowMessage_active[of cfg now "ws_clientIp w" st]
  by (auto simp: on_message_def Let_def split_beta telemetry_active split: option.splits)

lemma post_register_components:
  "sockets (fst (post_rendezvous_register sha256hex s2n cfg now tok body_in st)) = sockets st"
  "rooms (fst (post_rendezvous_register sha256hex s2n cfg now tok body_in st)) = rooms st"
  "connectionsByIp (fst (post_rendezvous_register sha256hex s2n cfg now tok body_in st)) = connectionsByIp st"
  "wsActiveConnections (metrics (fst (post_rendezvous_register sha256hex s2n cfg now tok body_in st))) =
     wsActiveConnections (metrics st)"
  by (auto simp: post_rendezvous_register_def split: option.splits)

lemma get_discover_components:
  "sockets (fst (get_rendezvous_discover s2n now q_ns q_rm q_limit st)) = sockets st"
  "rooms (fst (get_rendezvous_discover s2n now q_ns q_rm q_limit st)) = rooms st"
  "connectionsByIp (fst (get_rendezvous_discover s2n now q_ns q_rm q_limit st)) = connectionsByIp st"
  "wsActiveConnections (metrics (fst (get_rendezvous_discover s2n now q_ns q_rm q_limit st))) =
     wsActiveConnections (metrics st)"
  by (auto simp: get_rendezvous_discover_def Let_def split_beta)

lemma upgrade_refused_components:
  assumes "\<not> admitted sha256hex cfg req st" "validateToken sha256hex cfg (token req)"
  shows "sockets (fst (on_upgrade sha256hex cfg now isoNow req st)) = sockets st"
    and "rooms (fst (on_upgrade sha256hex cfg now isoNow req st)) = rooms st"
    and "connectionsByIp (fst (on_upgrade sha256hex cfg now isoNow req st)) = connectionsByIp st"
    and "wsActiveConnections (metrics (fst (on_upgrade sha256hex cfg now isoNow req st))) =
           wsActiveConnections (metrics st)"
proof -
  have r: "pathname req = ''/signal'' \<Longrightarrow> \<not> fst (allowConnection cfg (clientIp req) st)"
    using assms by (simp add: admitted_def)
  have eq: "fst (on_upgrade sha256hex cfg now isoNow req st) =
      (if pathname req \<noteq> ''/signal'' then st else snd (allowConnection cfg (clientIp req) st))"
    using r by (auto simp: on_upgrade_def Let_def split: prod.splits)
  show "sockets (fst (on_upgrade sha256hex cfg now isoNow req st)) = sockets st"
    by (simp add: eq allowConnection_frame)
  show "rooms (fst (on_upgrade sha256hex cfg now isoNow req st)) = rooms st"
    by (simp add: eq allowConnection_frame)
  show "connectionsByIp (fst (on_upgrade sha256hex cfg now isoNow req st)) = connectionsByIp st"
    using r by (simp add: eq allowConnection_rejected)
  show "wsActiveConnections (metrics (fst (on_upgrade sha256hex cfg now isoNow req st))) =
           wsActiveConnections (metrics st)"
    using r by (simp add: eq allowConnection_rejected)
qed

lemma step_hub_inv:
  assumes "hub_inv st" "token_ok sha256hex cfg ev"
  shows "hub_inv (fst (step sha256hex s2n cfg ev st))"
proof (cases ev)
  case (Upgrade req now isoNow)
  show ?thesis
  proof (cases "admitted sha256hex cfg req st")
    case True
    then show ?thesis using Upgrade assms(1) by (simp add: upgrade_admitted_inv)
  next
    case False
    have t: "validateToken sha256hex cfg (token req)" using assms(2) Upgrade by simp
    show ?thesis using Upgrade assms(1)
      hub_inv_cong[OF upgrade_refused_components[OF False t, of now isoNow]] by simp
  qed
next
  case (Message ws parsed now isoNow)
  then show ?thesis using assms(1) hub_inv_cong[OF on_message_components]
    by (auto split: option.splits)
next
  case (Closing ws)
  then show ?thesis using assms(1) closing_inv by (auto split: option.splits)
next
  case (Close ws)
  then show ?thesis using assms(1) close_inv by (auto split: option.splits)
next
  case (PostRegister tok body_in now)
  then show ?thesis using assms(1) hub_inv_cong[OF post_register_components] by simp
next
  case (GetDiscover q_ns q_rm q_limit now)
  then show ?thesis using assms(1) hub_inv_cong[OF get_discover_components] by simp
next
  case (PruneTick now)
  then show ?thesis using assms(1) hub_inv_cong[of "st\<lparr> rendezvous := pruneExpired now (rendezvous st) \<rparr>" st]
    by simp
qed

lemma run_hub_inv:
  "hub_inv st \<Longrightarrow> \<forall>ev \<in> set evs. token_ok sha256hex cfg ev \<Longrightarrow>
     hub_inv (run sha256hex s2n cfg evs st)"
  by (induction evs arbitrary: st) (auto simp: step_hub_inv)

lemma hub_inv_init: "hub_inv init_server"
  by (simp add: hub_inv_def inv_store_def inv_rooms_def inv_member_def inv_bucket_def inv_total_def
        init_server_def init_metrics_def live_total_def live_sessions_def bucket_of_def
        members_total_def buckets_total_def)

text \<open>
  As long as no upgrade request fails the token check, the three totals of claim C1
  agree in every reachable state, the counter of each address is the number of its live
  sessions, and an address without live sessions has no entry.
\<close>

lemma hub_counts_agree:
  fixes s2n :: "string \<Rightarrow> jsnum"
  assumes "\<forall>ev \<in> set evs. token_ok sha256hex cfg ev"
  defines "st \<equiv> run sha256hex s2n cfg evs init_server"
  shows "members_total st = wsActiveConnections (metrics st)"
    and "buckets_total st = wsActiveConnections (metrics st)"
    and "bucket_of st ip = live_sessions st ip"
    and "live_sessions st ip = 0 \<Longrightarrow> map_of (connectionsByIp st) ip = None"
proof -
  have inv: "hub_inv st" unfolding st_def using hub_inv_init assms(1) by (rule run_hub_inv)
  show "members_total st = wsActiveConnections (metrics st)"
       "buckets_total st = wsActiveConnections (metrics st)"
    using inv by (simp_all add: hub_inv_def inv_total_def)
  show b: "bucket_of st ip = live_sessions st ip"
    using inv by (simp add: hub_inv_def inv_bucket_def)
  show "live_sessions st ip = 0 \<Longrightarrow> map_of (connectionsByIp st) ip = None"
  proof (rule ccontr)
    assume z: "live_sessions st ip = 0" and "map_of (connectionsByIp st) ip \<noteq> None"
    then obtain c where c: "map_of (connectionsByIp st) ip = Some c" by auto
    then have "0 < c" using inv map_of_SomeD[OF c] by (auto simp: hub_inv_def inv_bucket_def)
    moreover have "c = 0" using b z c by (simp add: bucket_of_def)
    ultimately show False by simp
  qed
qed

text \<open>
  Claim C1 is not what the code does once an upgrade request fails the token check. The
  upgrade handler counts the connection in \<^verbatim>\<open>allowConnection\<close> before it calls
  \<^verbatim>\<open>validateToken\<close>, and its 401 branch returns without \<^verbatim>\<open>decrementConnection\<close>, which
  only the close handler calls. After one such request on a fresh server the address has
  a counter of 1 and no live session, while the gauge and the member total are 0; after
  twelve of them (the default cap) a request with the right token is refused with 429.
\<close>

theorem auth_failure_keeps_connection_slot:
  "snd (on_upgrade rev digest_cfg 0 ''t0'' wrong_token_req init_server)
     = [SocketReject ''401 Unauthorized'', Log ''warn'' ''peer.auth_failed'']
   \<and> connectionsByIp after_wrong_token = [(''10.0.0.9'', 1)]
   \<and> buckets_total after_wrong_token = 1
   \<and> live_sessions after_wrong_token ''10.0.0.9'' = 0
   \<and> wsActiveConnections (metrics after_wrong_token) = 0
   \<and> members_total after_wrong_token = 0
   \<and> snd (on_upgrade rev digest_cfg 13 ''t13'' right_token_req
             (run rev (\<lambda>s. NaN) digest_cfg (replicate 12 (Upgrade wrong_token_req 0 ''t0'')) init_server))
       = [SocketReject ''429 Too Many Requests'', Log ''warn'' ''peer.connection_rate_limited'']"
  by code_simp

end
